theory Spec2Isabelle
  imports Main "HOL-Library.Stream" "HOL-Library.Sublist"
begin

section \<open>Outcomes, exceptions and the outside world\<close>

text \<open>
  Every test of vpnmon yields one of the strings \<^verbatim>\<open>'Good'\<close>, \<^verbatim>\<open>'Warn'\<close>, \<^verbatim>\<open>'Fail'\<close>.
\<close>

datatype outcome = Good | Warn | Fail

text \<open>
  The Python exceptions that the code distinguishes: \<^verbatim>\<open>except PermissionError\<close> is
  tested before \<^verbatim>\<open>except Exception\<close>, an unbound global raises \<^verbatim>\<open>NameError\<close>, a missing
  list element \<^verbatim>\<open>IndexError\<close>, \<^verbatim>\<open>int()\<close> and \<^verbatim>\<open>time.sleep\<close> raise \<^verbatim>\<open>ValueError\<close>,
  \<^verbatim>\<open>time.sleep\<close> raises \<^verbatim>\<open>OverflowError\<close> as well. \<open>ExpectTimeout\<close> is the exception \<^verbatim>\<open>wexpect.TIMEOUT\<close>, \<open>OtherError\<close> stands for
  every other subclass of \<^verbatim>\<open>Exception\<close>.
\<close>

datatype exn =
  NameError | IndexError | ValueError | OverflowError | PermissionError | ExpectTimeout
  | OtherError

text \<open>
  A call returns a value, raises an exception, or leaves through \<^verbatim>\<open>exit(n)\<close>
  (\<^verbatim>\<open>SystemExit\<close>, which \<^verbatim>\<open>except Exception\<close> does not catch and a bare \<^verbatim>\<open>except:\<close> does).
\<close>

datatype 'a res = Ret 'a | Raise exn | SysExit int

text \<open>The test kinds written into the fourth field of a datalog line.\<close>

datatype kind = VPN_ping | VPN_open | VPN_close | Target_ping

text \<open>
  One datalog line: cycle, date, time of day, kind, outcome, address, label. The source
  joins the seven fields with commas and ends the line with a newline.
\<close>

datatype row = Row (r_cycle: nat) (r_date: string) (r_tod: string) (r_kind: kind)
  (r_outcome: outcome) (r_address: string) (r_label: string)

text \<open>What a file looks like when it is opened for reading.\<close>

datatype file_view = Absent | Unreadable exn | Lines "string list"

text \<open>An item of a \<^verbatim>\<open>wexpect\<close> pattern list: a string or the \<^verbatim>\<open>wexpect.TIMEOUT\<close> marker.\<close>

datatype pat = Str string | TIMEOUT

text \<open>
  The four uses of \<^verbatim>\<open>time.sleep\<close>: \<^verbatim>\<open>VPNCLI_CMD_DELAY\<close> (0.5 s),
  \<^verbatim>\<open>VPNMON_DATALOG_WRITE_RETRY_DELAY\<close> (15 s), the 0.30 s after a bell, and the delay
  between test cycles (\<^verbatim>\<open>params['delay']\<close> seconds).
\<close>

datatype pause = CmdDelay | RetryDelay | BellDelay | CycleDelay int

text \<open>
  The observable history of a run: every call that leaves the program, with what the
  outside answered, the console lines that report a test result or the start and end of a
  test cycle, and the entries into the three operations whose calls are counted
  (\<^verbatim>\<open>VPNClient.open\<close>, \<^verbatim>\<open>VPNClient.close\<close>, \<^verbatim>\<open>datalogger\<close>).
\<close>

datatype event =
    HostRun string "exn option"
  | Spawn "exn option"
  | SendLine string "exn option"
  | Expect "pat list" "exn + nat"
  | Terminate "exn option"
  | IsAlive bool
  | Sleep pause
  | Ping string nat "exn + bool"
  | Bell
  | FileOpen string "exn option"
  | FileWrite row "exn option"
  | FileClose "exn option"
  | Report nat kind outcome string
  | CycleStart nat
  | CycleEnd nat
  | Call_open
  | Call_close
  | Call_datalogger "(string \<times> row) list"

text \<open>
  The state threaded through the program. \<open>trace\<close> is the history so far. \<open>vpn_proc\<close>
  tells whether the module global \<^verbatim>\<open>vpn_proc\<close> of \<^verbatim>\<open>vpnmon_vpnclient\<close> has been assigned;
  \<open>sd_vpnclient\<close> and \<open>sd_datalogfile\<close> tell whether the shared data items hold an object
  (they compare unequal to \<^verbatim>\<open>''\<close>). The remaining fields are what the outside will answer
  to the calls still to come, in the order of the calls: \<open>acts\<close> for the calls made for
  their effect (\<open>None\<close>: the call returns, \<open>Some e\<close>: it raises \<open>e\<close>), \<open>matches\<close> for
  \<^verbatim>\<open>expect\<close>, \<open>alives\<close> for \<^verbatim>\<open>isalive\<close>, \<open>pings\<close> for \<^verbatim>\<open>ping\<close> (the success flag of the
  first response), \<open>clock\<close> for \<^verbatim>\<open>datetime.now\<close> and \<open>targets_views\<close> for the targets
  file as each test cycle finds it. \<open>sleep_max\<close> is the longest sleep, in seconds, that
  \<^verbatim>\<open>time.sleep\<close> accepts on the platform the program runs on.
\<close>

record world =
  trace :: "event list"
  vpn_proc :: bool
  sd_vpnclient :: bool
  sd_datalogfile :: bool
  acts :: "exn option stream"
  matches :: "(exn + nat) stream"
  alives :: "bool stream"
  pings :: "(exn + bool) stream"
  clock :: "(string \<times> string) stream"
  targets_views :: "file_view stream"
  sleep_max :: int

type_synonym 'a io = "world \<Rightarrow> 'a res \<times> world"

definition log :: "event \<Rightarrow> world \<Rightarrow> world" where
  "log e w = w\<lparr>trace := trace w @ [e]\<rparr>"

definition io_return :: "'a \<Rightarrow> 'a io" where
  "io_return x w = (Ret x, w)"

definition io_raise :: "exn \<Rightarrow> 'a io" where
  "io_raise e w = (Raise e, w)"

definition io_exit :: "int \<Rightarrow> 'a io" where
  "io_exit n w = (SysExit n, w)"

text \<open>An entry of the history that needs no answer from outside.\<close>

definition emit :: "event \<Rightarrow> unit io" where
  "emit e w = (Ret (), log e w)"

text \<open>Sequencing: the second statement runs only when the first one returns.\<close>

definition io_bind :: "'a io \<Rightarrow> ('a \<Rightarrow> 'b io) \<Rightarrow> 'b io" where
  "io_bind m f w =
     (case m w of
        (Ret x, w1) \<Rightarrow> f x w1
      | (Raise e, w1) \<Rightarrow> (Raise e, w1)
      | (SysExit n, w1) \<Rightarrow> (SysExit n, w1))"

text \<open>\<^verbatim>\<open>try: m  except Exception as error: h\<close>\<close>

definition io_try :: "'a io \<Rightarrow> (exn \<Rightarrow> 'a io) \<Rightarrow> 'a io" where
  "io_try m h w =
     (case m w of
        (Ret x, w1) \<Rightarrow> (Ret x, w1)
      | (Raise e, w1) \<Rightarrow> h e w1
      | (SysExit n, w1) \<Rightarrow> (SysExit n, w1))"

text \<open>\<^verbatim>\<open>try: m  except: pass\<close>, which swallows \<^verbatim>\<open>SystemExit\<close> as well.\<close>

definition io_try_pass :: "'a io \<Rightarrow> unit io" where
  "io_try_pass m w = (case m w of (r, w1) \<Rightarrow> (Ret (), w1))"

subsection \<open>Calls that leave the program\<close>

definition act :: "(exn option \<Rightarrow> event) \<Rightarrow> unit io" where
  "act ev w =
     (let r = shd (acts w); w1 = log (ev r) (w\<lparr>acts := stl (acts w)\<rparr>)
      in (case r of None \<Rightarrow> (Ret (), w1) | Some e \<Rightarrow> (Raise e, w1)))"

text \<open>\<^verbatim>\<open>wexpect.host.run(cmd)\<close>\<close>

definition host_run :: "string \<Rightarrow> unit io" where
  "host_run cmd = act (HostRun cmd)"

text \<open>\<^verbatim>\<open>vpn_proc = wexpect.spawn('cmd.exe', ...)\<close>: the global is assigned only when
  \<^verbatim>\<open>spawn\<close> returns.\<close>

definition spawn :: "unit io" where
  "spawn = io_bind (act Spawn) (\<lambda>_ w. (Ret (), w\<lparr>vpn_proc := True\<rparr>))"

text \<open>Reading the global \<^verbatim>\<open>vpn_proc\<close> before it was ever assigned raises \<^verbatim>\<open>NameError\<close>.\<close>

definition on_vpn_proc :: "'a io \<Rightarrow> 'a io" where
  "on_vpn_proc m w = (if vpn_proc w then m w else (Raise NameError, w))"

text \<open>\<^verbatim>\<open>vpn_proc.sendline(s)\<close>\<close>

definition sendline :: "string \<Rightarrow> unit io" where
  "sendline s = on_vpn_proc (act (SendLine s))"

text \<open>
  \<^verbatim>\<open>vpn_proc.expect(patterns)\<close>: returns the index of the pattern that matched (the index
  of \<^verbatim>\<open>wexpect.TIMEOUT\<close> when that is listed and the wait times out), and raises otherwise.
  The library returns indexes of listed patterns only.
\<close>

definition expect :: "pat list \<Rightarrow> nat io" where
  "expect ps = on_vpn_proc (\<lambda>w.
     (let r = shd (matches w); w1 = log (Expect ps r) (w\<lparr>matches := stl (matches w)\<rparr>)
      in (case r of
            Inl e \<Rightarrow> (Raise e, w1)
          | Inr i \<Rightarrow> if i < length ps then (Ret i, w1) else (Raise OtherError, w1))))"

text \<open>\<^verbatim>\<open>vpn_proc.terminate(force=True)\<close>\<close>

definition terminate :: "unit io" where
  "terminate = on_vpn_proc (act Terminate)"

text \<open>\<^verbatim>\<open>vpn_proc.isalive()\<close>\<close>

definition isalive :: "bool io" where
  "isalive = on_vpn_proc (\<lambda>w.
     (let b = shd (alives w) in (Ret b, log (IsAlive b) (w\<lparr>alives := stl (alives w)\<rparr>))))"

text \<open>\<^verbatim>\<open>print(vpn_proc.before)\<close>: nothing but the read of the global matters.\<close>

definition print_before :: "unit io" where
  "print_before = on_vpn_proc (io_return ())"

text \<open>
  The largest number of seconds that fits the time type of the interpreter, a signed 64-bit
  count of nanoseconds.
\<close>

definition PYTIME_MAX_SECONDS :: int where
  "PYTIME_MAX_SECONDS = 9223372036"

text \<open>
  \<^verbatim>\<open>time.sleep(secs)\<close> on an integer: \<^verbatim>\<open>OverflowError\<close> when the length does not fit the time
  type of the interpreter, \<^verbatim>\<open>ValueError\<close> when it is negative, \<^verbatim>\<open>OverflowError\<close> again when
  it is longer than the platform can sleep. The lengths that the program fixes itself are
  small and positive; the wait between two test cycles is whatever integer the parameters
  give.
\<close>

definition sleep :: "pause \<Rightarrow> unit io" where
  "sleep p w =
     (case p of
        CycleDelay d \<Rightarrow>
          if d < - PYTIME_MAX_SECONDS \<or> PYTIME_MAX_SECONDS < d then (Raise OverflowError, w)
          else if d < 0 then (Raise ValueError, w)
          else if sleep_max w < d then (Raise OverflowError, w)
          else (Ret (), log (Sleep p) w)
      | _ \<Rightarrow> (Ret (), log (Sleep p) w))"

text \<open>\<^verbatim>\<open>ping(siteurlip, count = p_count, timeout = p_timeout)._responses[0].success\<close>\<close>

definition ping :: "string \<Rightarrow> nat \<Rightarrow> bool io" where
  "ping siteurlip p_count w =
     (let r = shd (pings w); w1 = log (Ping siteurlip p_count r) (w\<lparr>pings := stl (pings w)\<rparr>)
      in (case r of Inl e \<Rightarrow> (Raise e, w1) | Inr b \<Rightarrow> (Ret b, w1)))"

text \<open>\<^verbatim>\<open>date_and_tod()\<close>\<close>

definition date_and_tod :: "(string \<times> string) io" where
  "date_and_tod w = (Ret (shd (clock w)), w\<lparr>clock := stl (clock w)\<rparr>)"

section \<open>vpnmon utilities\<close>

subsection \<open>pinger\<close>

text \<open>
  The loop \<^verbatim>\<open>for i in range(0, p_count)\<close> of \<^verbatim>\<open>pinger\<close>; the third argument counts the
  rounds still to run, the fourth is \<^verbatim>\<open>good\<close>.
\<close>

fun pinger_loop :: "string \<Rightarrow> nat \<Rightarrow> nat \<Rightarrow> nat \<Rightarrow> nat io" where
  "pinger_loop siteurlip p_count 0 good = io_return good"
| "pinger_loop siteurlip p_count (Suc n) good =
     io_bind (ping siteurlip p_count)
       (\<lambda>success. pinger_loop siteurlip p_count n (if success then good + 1 else good))"

definition pinger :: "string \<Rightarrow> nat \<Rightarrow> outcome io" where
  "pinger siteurlip p_count =
     io_bind (pinger_loop siteurlip p_count p_count 0)
       (\<lambda>good. io_return (if good = p_count then Good else if good = 0 then Fail else Warn))"

subsection \<open>get_targets\<close>

text \<open>\<^verbatim>\<open>s.split(sep, maxsplit)\<close> for a separator of one character.\<close>

fun split_at :: "char \<Rightarrow> nat \<Rightarrow> string \<Rightarrow> string list" where
  "split_at sep 0 s = [s]"
| "split_at sep (Suc n) s =
     (if sep \<in> set s
      then takeWhile (\<lambda>c. c \<noteq> sep) s # split_at sep n (tl (dropWhile (\<lambda>c. c \<noteq> sep) s))
      else [s])"

text \<open>\<^verbatim>\<open>d[k] = v\<close> on a dictionary, which keeps the place of a key it already has.\<close>

fun dict_set :: "'k \<Rightarrow> 'v \<Rightarrow> ('k \<times> 'v) list \<Rightarrow> ('k \<times> 'v) list" where
  "dict_set k v [] = [(k, v)]"
| "dict_set k v ((k1, v1) # d) =
     (if k = k1 then (k, v) # d else (k1, v1) # dict_set k v d)"

text \<open>\<^verbatim>\<open>line.replace('\n', '')\<close>\<close>

definition strip_newlines :: "string \<Rightarrow> string" where
  "strip_newlines line = filter (\<lambda>c. c \<noteq> CHR 0x0A) line"

text \<open>
  The loop \<^verbatim>\<open>for line in targets_file\<close>: \<^verbatim>\<open>ip_and_name[1]\<close> raises \<^verbatim>\<open>IndexError\<close> when the
  line has one field only.
\<close>

fun targets_loop :: "string list \<Rightarrow> (string \<times> string) list \<Rightarrow> exn + (string \<times> string) list" where
  "targets_loop [] targets = Inr targets"
| "targets_loop (line # rest) targets =
     (case split_at (CHR '','') 2 (strip_newlines line) of
        ip # name # others \<Rightarrow> targets_loop rest (dict_set ip name targets)
      | _ \<Rightarrow> Inl IndexError)"

text \<open>
  \<^verbatim>\<open>get_targets\<close> on the file as it is found: a missing file gives no targets, and every
  exception while the file is opened and read ends the program with \<^verbatim>\<open>exit(1)\<close>.
\<close>

definition get_targets_of :: "file_view \<Rightarrow> (string \<times> string) list res" where
  "get_targets_of fv =
     (case fv of
        Absent \<Rightarrow> Ret []
      | Unreadable e \<Rightarrow> SysExit 1
      | Lines ls \<Rightarrow>
          (case targets_loop ls [] of Inl e \<Rightarrow> SysExit 1 | Inr targets \<Rightarrow> Ret targets))"

definition get_targets :: "string \<Rightarrow> (string \<times> string) list io" where
  "get_targets targets_file w =
     (get_targets_of (shd (targets_views w)), w\<lparr>targets_views := stl (targets_views w)\<rparr>)"

section \<open>The VPN client\<close>

definition taskkill_vpnui :: string where
  "taskkill_vpnui = ''taskkill /f /im vpnui.exe''"

definition taskkill_vpncli :: string where
  "taskkill_vpncli = ''taskkill /f /im vpncli.exe''"

text \<open>The path of the Cisco AnyConnect CLI, \<^verbatim>\<open>cisco_dir + cisco_cli + '\\vpncli'\<close>.\<close>

definition vpncli :: string where
  "vpncli = ''c:'' @ [CHR 0x5C, CHR 0x22] @ ''Program Files (x86)'' @ [CHR 0x22, CHR 0x5C]
     @ ''Cisco'' @ [CHR 0x5C, CHR 0x22] @ ''Cisco AnyConnect Secure Mobility Client''
     @ [CHR 0x22, CHR 0x5C] @ ''vpncli''"

text \<open>
  The cleanup every failure branch ends with:
  \<^verbatim>\<open>try: vpn_proc.terminate(force=True); wexpect.host.run('taskkill /f /im vpncli.exe')\<close>
  \<^verbatim>\<open>except Exception as error: print(...)\<close>.
\<close>

definition teardown :: "unit io" where
  "teardown = io_try (io_bind terminate (\<lambda>_. host_run taskkill_vpncli)) (\<lambda>error. io_return ())"

text \<open>
  A step of \<open>open\<close> or \<open>close\<close> either returns from the method (\<open>Some v\<close>) or falls
  through to the next step (\<open>None\<close>).
\<close>

definition then_step :: "'a option io \<Rightarrow> 'a io \<Rightarrow> 'a io" where
  "then_step s k = io_bind s (\<lambda>r. case r of Some v \<Rightarrow> io_return v | None \<Rightarrow> k)"

text \<open>The failure branches of \<open>open\<close> and \<open>close\<close> that return \<^verbatim>\<open>'Fail'\<close>.\<close>

definition fail_cleanup :: "outcome option io" where
  "fail_cleanup = io_bind print_before (\<lambda>_. io_bind teardown (\<lambda>_. io_return (Some Fail)))"

text \<open>The failure branches of \<open>open\<close> that end with \<^verbatim>\<open>exit(1)\<close> after the cleanup.\<close>

definition exit_cleanup :: "unit io" where
  "exit_cleanup = io_bind print_before (\<lambda>_. io_bind teardown (\<lambda>_. io_exit 1))"

subsection \<open>open\<close>

text \<open>Terminate all other Cisco AnyConnect applications.\<close>

definition open_kill_others :: "unit io" where
  "open_kill_others =
     io_try (io_bind (host_run taskkill_vpnui) (\<lambda>_. host_run taskkill_vpncli))
       (\<lambda>error. io_exit 1)"

text \<open>Spawn a child process to run the Cisco AnyConnect CLI.\<close>

definition open_spawn :: "unit io" where
  "open_spawn =
     io_try (io_bind spawn (\<lambda>_. io_bind (expect [Str ''>'']) (\<lambda>_. io_return ())))
       (\<lambda>error. io_bind print_before (\<lambda>_. io_exit 1))"

text \<open>Start vpncli.\<close>

definition open_start_cli :: "unit io" where
  "open_start_cli =
     io_try
       (io_bind (sleep CmdDelay) (\<lambda>_. io_bind (sendline vpncli) (\<lambda>_.
        io_bind (expect [Str ''VPN>'']) (\<lambda>_. io_return ()))))
       (\<lambda>error. exit_cleanup)"

text \<open>Make sure the VPN is disconnected.\<close>

definition open_disconnect :: "unit io" where
  "open_disconnect =
     io_try
       (io_bind (sleep CmdDelay) (\<lambda>_. io_bind (sendline ''disconnect'') (\<lambda>_.
        io_bind (expect [Str ''VPN>'']) (\<lambda>_. io_return ()))))
       (\<lambda>error. exit_cleanup)"

text \<open>Initiate a connection with the VPN site.\<close>

definition connect_patterns :: "pat list" where
  "connect_patterns = [Str ''Username:'', Str ''unsuccessful domain name'',
     Str ''Connect not available.'', Str ''cannot verify server'', TIMEOUT]"

definition open_connect :: "string \<Rightarrow> outcome option io" where
  "open_connect vpnsitename =
     io_try
       (io_bind (sleep CmdDelay) (\<lambda>_. io_bind (sendline (''connect '' @ vpnsitename)) (\<lambda>_.
        io_bind (expect connect_patterns) (\<lambda>index.
          if index = 1 then fail_cleanup
          else if index = 2 then fail_cleanup
          else if index = 3 then fail_cleanup
          else if index = 4 then fail_cleanup
          else io_return None))))
       (\<lambda>error. fail_cleanup)"

text \<open>Enter the VPN login credentials.\<close>

definition credentials_patterns :: "pat list" where
  "credentials_patterns = [Str ''accept?'', Str ''Login failed'', TIMEOUT]"

definition open_credentials :: "string \<Rightarrow> string \<Rightarrow> outcome option io" where
  "open_credentials vpnusername vpnpassword =
     io_try
       (io_bind (sleep CmdDelay) (\<lambda>_. io_bind (sendline vpnusername) (\<lambda>_.
        io_bind (expect [Str ''Password:'']) (\<lambda>_.
        io_bind (sleep CmdDelay) (\<lambda>_. io_bind (sendline vpnpassword) (\<lambda>_.
        io_bind (expect credentials_patterns) (\<lambda>index.
          if index = 1 then fail_cleanup
          else if index = 2 then fail_cleanup
          else io_return None)))))))
       (\<lambda>error. fail_cleanup)"

text \<open>Accept the VPN banner; success needs two final checks.\<close>

definition banner_patterns :: "pat list" where
  "banner_patterns = [Str ''state: Connected'', Str ''Please try connecting again'',
     Str ''driver encountered an error'', TIMEOUT]"

definition open_banner :: "string \<Rightarrow> outcome option io" where
  "open_banner vpnsitename =
     io_try
       (io_bind (sleep CmdDelay) (\<lambda>_. io_bind (sendline ''y'') (\<lambda>_.
        io_bind (expect banner_patterns) (\<lambda>index.
          if index = 1 then fail_cleanup
          else if index = 2 then fail_cleanup
          else if index = 3 then fail_cleanup
          else io_bind (expect [Str (''Connected to '' @ vpnsitename)]) (\<lambda>_.
               io_bind (expect [Str ''VPN>'']) (\<lambda>_. io_return None))))))
       (\<lambda>error. fail_cleanup)"

definition vpn_open :: "string \<Rightarrow> string \<Rightarrow> string \<Rightarrow> outcome io" where
  "vpn_open vpnsitename vpnusername vpnpassword =
     io_bind (emit Call_open) (\<lambda>_.
     io_bind open_kill_others (\<lambda>_.
     io_bind open_spawn (\<lambda>_.
     io_bind open_start_cli (\<lambda>_.
     io_bind open_disconnect (\<lambda>_.
     then_step (open_connect vpnsitename)
       (then_step (open_credentials vpnusername vpnpassword)
         (then_step (open_banner vpnsitename)
           (io_return Good))))))))"

subsection \<open>close\<close>

text \<open>Close the VPN connection.\<close>

definition close_disconnect :: "outcome option io" where
  "close_disconnect =
     io_try
       (io_bind (sleep CmdDelay) (\<lambda>_. io_bind (sendline ''disconnect'') (\<lambda>_.
        io_bind (expect [Str ''VPN>'']) (\<lambda>_. io_return None))))
       (\<lambda>error. fail_cleanup)"

text \<open>Exit the Cisco AnyConnect CLI.\<close>

definition close_exit :: "outcome option io" where
  "close_exit =
     io_try
       (io_bind (sleep CmdDelay) (\<lambda>_. io_bind (sendline ''exit'') (\<lambda>_.
        io_bind (expect [Str ''>'']) (\<lambda>_. io_return None))))
       (\<lambda>error. fail_cleanup)"

text \<open>Terminate the child process that was spawned by \<open>open\<close>.\<close>

definition close_terminate :: "outcome option io" where
  "close_terminate =
     io_try
       (io_bind terminate (\<lambda>_. io_bind (host_run taskkill_vpncli) (\<lambda>_. io_return None)))
       (\<lambda>error. io_return (Some Fail))"

definition vpn_close :: "outcome io" where
  "vpn_close =
     io_bind (emit Call_close) (\<lambda>_.
     io_bind isalive (\<lambda>alive.
       if \<not> alive then io_return Good
       else then_step close_disconnect
              (then_step close_exit
                (then_step close_terminate
                  (io_return Good)))))"

section \<open>sounder and datalogger\<close>

text \<open>The loop \<^verbatim>\<open>for x in range(s_count)\<close> of \<^verbatim>\<open>sounder\<close>: a bell, then 0.30 s of sleep.\<close>

fun sounder_loop :: "nat \<Rightarrow> unit io" where
  "sounder_loop 0 = io_return ()"
| "sounder_loop (Suc n) =
     io_bind (emit Bell) (\<lambda>_. io_bind (sleep BellDelay) (\<lambda>_. sounder_loop n))"

definition sounder :: "nat \<Rightarrow> bool \<Rightarrow> unit io" where
  "sounder s_count s_quiet = (if \<not> s_quiet then sounder_loop s_count else io_return ())"

definition VPNMON_DATALOG_WRITE_MAX_RETRIES :: nat where
  "VPNMON_DATALOG_WRITE_MAX_RETRIES = 5"

text \<open>\<^verbatim>\<open>sd.datalogfile = open(datalog_file, 'a')\<close>\<close>

definition file_open :: "string \<Rightarrow> unit io" where
  "file_open datalog_file =
     io_bind (act (FileOpen datalog_file)) (\<lambda>_ w. (Ret (), w\<lparr>sd_datalogfile := True\<rparr>))"

text \<open>\<^verbatim>\<open>for entry in test_data: sd.datalogfile.write(test_data[entry])\<close>\<close>

fun write_entries :: "(string \<times> row) list \<Rightarrow> unit io" where
  "write_entries [] = io_return ()"
| "write_entries ((entry, line) # rest) =
     io_bind (act (FileWrite line)) (\<lambda>_. write_entries rest)"

text \<open>The body of the \<^verbatim>\<open>try\<close> of \<^verbatim>\<open>datalogger\<close>: open for append, write every entry, close.\<close>

definition write_attempt :: "string \<Rightarrow> (string \<times> row) list \<Rightarrow> unit io" where
  "write_attempt datalog_file test_data =
     io_bind (file_open datalog_file) (\<lambda>_.
     io_bind (write_entries test_data) (\<lambda>_. act FileClose))"

text \<open>
  \<^verbatim>\<open>sd.vpnclient.close()\<close>: while the shared data item is still \<^verbatim>\<open>''\<close>, the attribute
  lookup raises.
\<close>

definition sd_vpnclient_close :: "outcome io" where
  "sd_vpnclient_close w = (if sd_vpnclient w then vpn_close w else (Raise OtherError, w))"

text \<open>
  The loop \<^verbatim>\<open>while write_retry > 0\<close> of \<^verbatim>\<open>datalogger\<close>; the third argument is
  \<^verbatim>\<open>write_retry\<close>, the fourth \<^verbatim>\<open>return_value\<close>.
\<close>

fun datalogger_loop :: "string \<Rightarrow> (string \<times> row) list \<Rightarrow> nat \<Rightarrow> outcome \<Rightarrow> outcome io" where
  "datalogger_loop datalog_file test_data 0 return_value = io_return return_value"
| "datalogger_loop datalog_file test_data (Suc n) return_value =
     (\<lambda>w. case write_attempt datalog_file test_data w of
        (Ret u, w1) \<Rightarrow> datalogger_loop datalog_file test_data 0 Good w1
      | (Raise e, w1) \<Rightarrow>
          if e = PermissionError
          then io_bind (if 0 < n then sleep RetryDelay else io_return ())
                 (\<lambda>_. datalogger_loop datalog_file test_data n return_value) w1
          else io_bind (io_try_pass sd_vpnclient_close) (\<lambda>_. io_exit 1) w1
      | (SysExit c, w1) \<Rightarrow> (SysExit c, w1))"

definition datalogger :: "string \<Rightarrow> (string \<times> row) list \<Rightarrow> outcome io" where
  "datalogger datalog_file test_data =
     io_bind (emit (Call_datalogger test_data)) (\<lambda>_.
       datalogger_loop datalog_file test_data VPNMON_DATALOG_WRITE_MAX_RETRIES Fail)"

section \<open>Operational parameters\<close>

text \<open>The dictionary that \<^verbatim>\<open>get_params\<close> returns.\<close>

record params =
  p_vpnname :: string
  p_vpnurlip :: string
  p_username :: string
  p_password :: string
  p_targets :: string
  p_cycles :: int
  p_delay :: int
  p_datalog :: string
  p_quiet :: bool













section \<open>The test cycles\<close>

text \<open>
  The loop \<^verbatim>\<open>for target in targets\<close>, with the dictionary of results and the three
  counters.
\<close>

fun ping_targets ::
  "params \<Rightarrow> nat \<Rightarrow> (string \<times> string) list \<Rightarrow> (string \<times> row) list \<times> nat \<times> nat \<times> nat
    \<Rightarrow> ((string \<times> row) list \<times> nat \<times> nat \<times> nat) io" where
  "ping_targets p test_cycle [] acc = io_return acc"
| "ping_targets p test_cycle ((target, label) # rest) (test_results, tgood, twarn, tfail) =
     io_bind date_and_tod (\<lambda>(date, tod).
     io_bind (pinger target 2) (\<lambda>target_ping_result.
     io_bind (if target_ping_result \<noteq> Good then sounder 1 (p_quiet p) else io_return ()) (\<lambda>_.
     io_bind (emit (Report test_cycle Target_ping target_ping_result label)) (\<lambda>_.
       ping_targets p test_cycle rest
         (dict_set target
            (Row test_cycle date tod Target_ping target_ping_result target label) test_results,
          if target_ping_result = Good then tgood + 1 else tgood,
          if target_ping_result = Warn then twarn + 1 else twarn,
          if target_ping_result = Fail then tfail + 1 else tfail)))))"

text \<open>The datalog line of a test on the VPN site itself.\<close>

definition vpn_row :: "params \<Rightarrow> nat \<Rightarrow> string \<Rightarrow> string \<Rightarrow> kind \<Rightarrow> outcome \<Rightarrow> row" where
  "vpn_row p test_cycle date tod k result =
     Row test_cycle date tod k result (p_vpnurlip p) (p_vpnname p)"

text \<open>TEST: ping the VPN site.\<close>

definition test_vpn_ping ::
  "params \<Rightarrow> nat \<Rightarrow> (outcome \<times> string \<times> string \<times> (string \<times> row) list) io" where
  "test_vpn_ping p test_cycle =
     io_bind date_and_tod (\<lambda>(date, tod).
     io_bind (pinger (p_vpnurlip p) 2) (\<lambda>vpn_ping_result.
     io_bind (if vpn_ping_result \<noteq> Good then sounder 3 (p_quiet p) else io_return ()) (\<lambda>_.
     io_bind (emit (Report test_cycle VPN_ping vpn_ping_result (p_vpnname p))) (\<lambda>_.
       io_return (vpn_ping_result, date, tod,
         dict_set ''VPN ping'' (vpn_row p test_cycle date tod VPN_ping vpn_ping_result) [])))))"

text \<open>
  TEST: if the VPN ping was OK, open the VPN connection. Without an open, the result is
  the beginning assumption \<^verbatim>\<open>'Fail'\<close>, reported and recorded with the date and time of the
  ping.
\<close>

definition test_vpn_open ::
  "params \<Rightarrow> nat \<Rightarrow> outcome \<Rightarrow> string \<Rightarrow> string \<Rightarrow> (string \<times> row) list
    \<Rightarrow> (outcome \<times> (string \<times> row) list) io" where
  "test_vpn_open p test_cycle vpn_ping_result date tod test_results =
     io_bind
       (if vpn_ping_result = Good
        then io_bind date_and_tod (\<lambda>(date1, tod1).
             io_bind (vpn_open (p_vpnurlip p) (p_username p) (p_password p)) (\<lambda>r.
               io_return (r, date1, tod1)))
        else io_return (Fail, date, tod)) (\<lambda>(vpn_open_result, date1, tod1).
     io_bind (if vpn_open_result \<noteq> Good then sounder 3 (p_quiet p) else io_return ()) (\<lambda>_.
     io_bind (emit (Report test_cycle VPN_open vpn_open_result (p_vpnname p))) (\<lambda>_.
       io_return (vpn_open_result,
         dict_set ''VPN open'' (vpn_row p test_cycle date1 tod1 VPN_open vpn_open_result)
           test_results))))"

text \<open>TEST: if the VPN is open, ping target systems through it.\<close>

definition test_targets ::
  "params \<Rightarrow> nat \<Rightarrow> (string \<times> string) list \<Rightarrow> outcome \<Rightarrow> (string \<times> row) list
    \<Rightarrow> ((string \<times> row) list \<times> nat \<times> nat \<times> nat) io" where
  "test_targets p test_cycle targets vpn_open_result test_results =
     (if vpn_open_result = Good
      then ping_targets p test_cycle targets (test_results, 0, 0, 0)
      else io_return (test_results, 0, 0, 0))"

text \<open>TEST: if the VPN is open, close it.\<close>

definition test_vpn_close ::
  "params \<Rightarrow> nat \<Rightarrow> outcome \<Rightarrow> (string \<times> row) list \<Rightarrow> (string \<times> row) list io" where
  "test_vpn_close p test_cycle vpn_open_result test_results =
     (if vpn_open_result = Good
      then io_bind date_and_tod (\<lambda>(date, tod).
           io_bind vpn_close (\<lambda>vpn_close_result.
           io_bind (if vpn_close_result \<noteq> Good then sounder 3 (p_quiet p) else io_return ())
             (\<lambda>_.
           io_bind (emit (Report test_cycle VPN_close vpn_close_result (p_vpnname p))) (\<lambda>_.
             io_return
               (dict_set ''VPN close'' (vpn_row p test_cycle date tod VPN_close vpn_close_result)
                  test_results)))))
      else io_return test_results)"

text \<open>
  The test cycle activities, between the two banners of \<^verbatim>\<open>main\<close>. The result is the
  dictionary \<^verbatim>\<open>test_results\<close>, the results of the ping and of the open, and the three
  counters.
\<close>

definition cycle_tests ::
  "params \<Rightarrow> (string \<times> string) list \<Rightarrow> nat
    \<Rightarrow> ((string \<times> row) list \<times> outcome \<times> outcome \<times> nat \<times> nat \<times> nat) io" where
  "cycle_tests p targets test_cycle =
     io_bind (test_vpn_ping p test_cycle) (\<lambda>(vpn_ping_result, date, tod, results1).
     io_bind (test_vpn_open p test_cycle vpn_ping_result date tod results1)
       (\<lambda>(vpn_open_result, results2).
     io_bind (test_targets p test_cycle targets vpn_open_result results2)
       (\<lambda>(results3, tgood, twarn, tfail).
     io_bind (test_vpn_close p test_cycle vpn_open_result results3) (\<lambda>test_results.
       io_return (test_results, vpn_ping_result, vpn_open_result, tgood, twarn, tfail)))))"

text \<open>
  One pass of the loop of \<^verbatim>\<open>main\<close> up to the summary of the test cycle: read the targets,
  announce the start, run the tests, write the results to the datalog, announce the end.
\<close>

definition cycle :: "params \<Rightarrow> nat \<Rightarrow> outcome io" where
  "cycle p test_cycle =
     io_bind (get_targets (p_targets p)) (\<lambda>targets.
     io_bind date_and_tod (\<lambda>_.
     io_bind (emit (CycleStart test_cycle)) (\<lambda>_.
     io_bind (cycle_tests p targets test_cycle) (\<lambda>(test_results, summary).
     io_bind (datalogger (p_datalog p) test_results) (\<lambda>datalogger_result.
     io_bind date_and_tod (\<lambda>_.
     io_bind (emit (CycleEnd test_cycle)) (\<lambda>_. io_return datalogger_result)))))))"

text \<open>
  What follows the summary when another test cycle is expected: the time stamp of the
  message and the wait.
\<close>

definition wait_next :: "params \<Rightarrow> unit io" where
  "wait_next p = io_bind date_and_tod (\<lambda>_. sleep (CycleDelay (p_delay p)))"

text \<open>
  The loop \<^verbatim>\<open>while not count == 0\<close> of \<^verbatim>\<open>main\<close>, which never ends for a negative count
  unless a call ends the program; the result is \<^verbatim>\<open>test_cycle\<close>.
\<close>

partial_function (option) main_loop ::
  "params \<Rightarrow> int \<Rightarrow> nat \<Rightarrow> world \<Rightarrow> (nat res \<times> world) option" where
  "main_loop p count test_cycle w =
     (if count = 0 then Some (Ret test_cycle, w)
      else (case cycle p test_cycle w of
              (Ret u, w1) \<Rightarrow>
                (if (if 0 < count then count - 1 else count) = 0
                 then main_loop p (if 0 < count then count - 1 else count) test_cycle w1
                 else (case wait_next p w1 of
                         (Ret v, w2) \<Rightarrow>
                           main_loop p (if 0 < count then count - 1 else count)
                             (test_cycle + 1) w2
                       | (Raise e, w2) \<Rightarrow> Some (Raise e, w2)
                       | (SysExit n, w2) \<Rightarrow> Some (SysExit n, w2)))
            | (Raise e, w1) \<Rightarrow> Some (Raise e, w1)
            | (SysExit n, w1) \<Rightarrow> Some (SysExit n, w1)))"





section \<open>Scripts and predicates of the properties\<close>


text \<open>What each step of \<open>open\<close> adds to the history when the outside answers as the step expects.\<close>

definition kill_script :: "event list" where
  "kill_script = [HostRun taskkill_vpnui None, HostRun taskkill_vpncli None]"

definition spawn_script :: "event list" where
  "spawn_script = [Spawn None, Expect [Str ''>''] (Inr 0)]"

definition start_cli_script :: "event list" where
  "start_cli_script = [Sleep CmdDelay, SendLine vpncli None, Expect [Str ''VPN>''] (Inr 0)]"

definition disconnect_script :: "event list" where
  "disconnect_script = [Sleep CmdDelay, SendLine ''disconnect'' None, Expect [Str ''VPN>''] (Inr 0)]"

definition connect_script :: "string \<Rightarrow> event list" where
  "connect_script site =
     [Sleep CmdDelay, SendLine (''connect '' @ site) None, Expect connect_patterns (Inr 0)]"

definition credentials_script :: "string \<Rightarrow> string \<Rightarrow> event list" where
  "credentials_script user pass =
     [Sleep CmdDelay, SendLine user None, Expect [Str ''Password:''] (Inr 0),
      Sleep CmdDelay, SendLine pass None, Expect credentials_patterns (Inr 0)]"

definition banner_script :: "string \<Rightarrow> event list" where
  "banner_script site =
     [Sleep CmdDelay, SendLine ''y'' None, Expect banner_patterns (Inr 0),
      Expect [Str (''Connected to '' @ site)] (Inr 0), Expect [Str ''VPN>''] (Inr 0)]"

definition startup_script :: "event list" where
  "startup_script = kill_script @ spawn_script @ start_cli_script @ disconnect_script"

definition handshake_script :: "string \<Rightarrow> string \<Rightarrow> string \<Rightarrow> event list" where
  "handshake_script site user pass =
     connect_script site @ credentials_script user pass @ banner_script site"


text \<open>
  A world to start examples from: nothing has happened yet, and the outside answers every
  call the way the program hopes.
\<close>

definition calm_world :: world where
  "calm_world =
     \<lparr>trace = [], vpn_proc = False, sd_vpnclient = False, sd_datalogfile = False,
      acts = sconst None, matches = sconst (Inr 0), alives = sconst True,
      pings = sconst (Inr True), clock = sconst (''2022/01/01'', ''12:00:00''),
      targets_views = sconst Absent, sleep_max = 4294967\<rparr>"

text \<open>
  The layers of the history: the conversation with the child process and the host, the
  pings, the bells, the datalog file, the console reports of each kind of test, the marks
  of the loop of \<open>main\<close> (start and end of a test cycle, the wait between two), and the
  entries into \<open>open\<close>, \<open>close\<close> and \<open>datalogger\<close>.
\<close>

datatype layer = L_session | L_ping | L_ping_raised | L_bell | L_file | L_report kind | L_mark
  | L_open | L_close | L_datalogger

fun cls :: "event \<Rightarrow> layer" where
  "cls (HostRun cmd r) = L_session"
| "cls (Spawn r) = L_session"
| "cls (SendLine s r) = L_session"
| "cls (Expect ps r) = L_session"
| "cls (Terminate r) = L_session"
| "cls (IsAlive b) = L_session"
| "cls (Sleep CmdDelay) = L_session"
| "cls (Sleep RetryDelay) = L_file"
| "cls (Sleep BellDelay) = L_bell"
| "cls (Sleep (CycleDelay d)) = L_mark"
| "cls (Ping s k (Inl e)) = L_ping_raised"
| "cls (Ping s k (Inr b)) = L_ping"
| "cls Bell = L_bell"
| "cls (FileOpen f r) = L_file"
| "cls (FileWrite l r) = L_file"
| "cls (FileClose r) = L_file"
| "cls (Report n k r l) = L_report k"
| "cls (CycleStart n) = L_mark"
| "cls (CycleEnd n) = L_mark"
| "cls Call_open = L_open"
| "cls Call_close = L_close"
| "cls (Call_datalogger d) = L_datalogger"

text \<open>
  A computation is steady on a set of layers when it adds entries of these layers only,
  whatever the outside answers, and unsets neither the global \<^verbatim>\<open>vpn_proc\<close> nor the shared
  VPN client.
\<close>

definition steady :: "layer set \<Rightarrow> 'a io \<Rightarrow> bool" where
  "steady S m \<longleftrightarrow>
     (\<forall>w r w1. m w = (r, w1) \<longrightarrow>
        (vpn_proc w \<longrightarrow> vpn_proc w1) \<and> (sd_vpnclient w \<longrightarrow> sd_vpnclient w1) \<and>
        (\<exists>es. trace w1 = trace w @ es \<and> (\<forall>e \<in> set es. cls e \<in> S)))"

text \<open>
  What \<open>datalogger\<close> adds to the history while the file is held by another program (an
  open that raises \<^verbatim>\<open>PermissionError\<close>, then the wait before the next attempt), and when an
  attempt succeeds (the open, one write for each entry in the order of the dictionary, the
  close).
\<close>

definition contended :: "string \<Rightarrow> nat \<Rightarrow> event list" where
  "contended f n = concat (replicate n [FileOpen f (Some PermissionError), Sleep RetryDelay])"

definition written :: "string \<Rightarrow> (string \<times> row) list \<Rightarrow> event list" where
  "written f d = FileOpen f None # map (\<lambda>(entry, line). FileWrite line None) d @ [FileClose None]"

text \<open>A file operation that raised something other than \<^verbatim>\<open>PermissionError\<close>.\<close>

fun fatal_io :: "event \<Rightarrow> bool" where
  "fatal_io (FileOpen f (Some e)) = (e \<noteq> PermissionError)"
| "fatal_io (FileWrite l (Some e)) = (e \<noteq> PermissionError)"
| "fatal_io (FileClose (Some e)) = (e \<noteq> PermissionError)"
| "fatal_io e = False"

text \<open>The results of a test cycle whose VPN ping failed, for examples.\<close>

definition sample_results :: "(string \<times> row) list" where
  "sample_results =
     [(''VPN ping'', Row 1 ''2022/01/01'' ''12:00:00'' VPN_ping Fail ''10.0.0.1'' ''VPN Gateway''),
      (''VPN open'', Row 1 ''2022/01/01'' ''12:00:00'' VPN_open Fail ''10.0.0.1'' ''VPN Gateway'')]"

text \<open>
  The entries of a \<open>datalogger\<close> call that ends the program: no file operation failed for
  good up to the one that did, then came the call of \<open>close\<close> and nothing but its
  conversation with the child process.
\<close>

definition closed_after_failure :: "event list \<Rightarrow> bool" where
  "closed_after_failure es \<longleftrightarrow>
     (\<exists>pre x post. es = pre @ x # Call_close # post \<and> fatal_io x
        \<and> (\<forall>y \<in> set pre. \<not> fatal_io y) \<and> (\<forall>y \<in> set post. cls y = L_session))"

text \<open>The layers that the test cycle activities and \<open>datalogger\<close> write to.\<close>

definition test_layers :: "layer set" where
  "test_layers = {L_session, L_ping, L_ping_raised, L_bell, L_open, L_close,
     L_report VPN_ping, L_report VPN_open, L_report Target_ping, L_report VPN_close}"

definition datalog_layers :: "layer set" where
  "datalog_layers = {L_file, L_close, L_session}"

text \<open>What \<^verbatim>\<open>sounder(s_count = 3, s_quiet)\<close> adds to the history.\<close>

definition alarm :: "bool \<Rightarrow> event list" where
  "alarm s_quiet =
     (if s_quiet then []
      else [Bell, Sleep BellDelay, Bell, Sleep BellDelay, Bell, Sleep BellDelay])"

text \<open>The entries handed to \<open>datalogger\<close>, in the order of the calls.\<close>

fun logged_rows :: "event list \<Rightarrow> (string \<times> row) list" where
  "logged_rows [] = []"
| "logged_rows (Call_datalogger d # es) = d @ logged_rows es"
| "logged_rows (e # es) = logged_rows es"

text \<open>
  The results and the history of the test cycle activities when both pings of the VPN
  site fail.
\<close>

definition gateway_fail_rows :: "params \<Rightarrow> nat \<Rightarrow> string \<Rightarrow> string \<Rightarrow> (string \<times> row) list" where
  "gateway_fail_rows p tc date tod =
     [(''VPN ping'', vpn_row p tc date tod VPN_ping Fail),
      (''VPN open'', vpn_row p tc date tod VPN_open Fail)]"

definition gateway_fail_events :: "params \<Rightarrow> nat \<Rightarrow> event list" where
  "gateway_fail_events p tc =
     [Ping (p_vpnurlip p) 2 (Inr False), Ping (p_vpnurlip p) 2 (Inr False)]
     @ alarm (p_quiet p) @ [Report tc VPN_ping Fail (p_vpnname p)]
     @ alarm (p_quiet p) @ [Report tc VPN_open Fail (p_vpnname p)]"

text \<open>Parameters and a world for examples: the VPN site does not answer its two pings.\<close>

definition gateway_down :: world where
  "gateway_down = calm_world\<lparr>pings := Inr False ## Inr False ## sconst (Inr True)\<rparr>"

definition sample_params :: params where
  "sample_params =
     \<lparr>p_vpnname = ''VPN Gateway'', p_vpnurlip = ''10.0.0.1'', p_username = ''user'',
      p_password = ''secret'', p_targets = ''vpnmon_targets.csv'', p_cycles = 1, p_delay = 0,
      p_datalog = ''vpnmon_datalog.csv'', p_quiet = False\<rparr>"

text \<open>
  A computation lets the pings through when the only way it can fail to return is a ping
  that raised.
\<close>

definition pings_through :: "'a io \<Rightarrow> bool" where
  "pings_through m \<longleftrightarrow>
     (\<forall>w r w1. m w = (r, w1) \<longrightarrow>
        (\<exists>es. trace w1 = trace w @ es
           \<and> ((\<exists>x. r = Ret x) \<or> (\<exists>e \<in> set es. cls e = L_ping_raised))))"

text \<open>
  Worlds for examples: one target behind a VPN site that answers, and the same with the
  ping of the target raising.
\<close>

definition vpn_up :: world where
  "vpn_up = calm_world\<lparr>targets_views := sconst (Lines [''10.0.0.2,host-a'' @ [CHR 0x0A]])\<rparr>"

definition target_raises :: world where
  "target_raises = vpn_up\<lparr>pings := Inr True ## Inr True ## Inl OtherError ## sconst (Inr True)\<rparr>"

text \<open>
  The marks that the loop of \<open>main\<close> leaves in the history when it runs \<open>n\<close> test cycles
  from cycle number \<open>tc\<close> on: the start and the end of each cycle, and the wait between two
  consecutive cycles, none after the last. \<open>loop_marks\<close> keeps the marks of a history;
  \<open>is_start\<close> and \<open>is_wait\<close> recognise the start of a cycle and the wait between cycles.
\<close>

fun marks :: "int \<Rightarrow> nat \<Rightarrow> nat \<Rightarrow> event list" where
  "marks d tc 0 = []"
| "marks d tc (Suc 0) = [CycleStart tc, CycleEnd tc]"
| "marks d tc (Suc (Suc n)) =
     [CycleStart tc, CycleEnd tc, Sleep (CycleDelay d)] @ marks d (tc + 1) (Suc n)"

fun is_start :: "event \<Rightarrow> bool" where
  "is_start (CycleStart n) = True"
| "is_start e = False"

fun is_wait :: "event \<Rightarrow> bool" where
  "is_wait (Sleep (CycleDelay d)) = True"
| "is_wait e = False"

definition loop_marks :: "event list \<Rightarrow> event list" where
  "loop_marks es = filter (\<lambda>e. cls e = L_mark) es"






text \<open>
  The VPN site is down, the targets file is missing when the first test cycle looks for it,
  and is there but cannot be opened when the second one does.
\<close>

definition targets_lost :: world where
  "targets_lost =
     gateway_down\<lparr>targets_views := Absent ## sconst (Unreadable PermissionError)\<rparr>"

section \<open>Properties\<close>

definition new_events :: "world \<Rightarrow> world \<Rightarrow> event list" where
  "new_events w w1 = drop (length (trace w)) (trace w1)"

lemma pinger_loop_all_answered:
  "pings w = map Inr bs @- rest \<Longrightarrow>
   pinger_loop site k (length bs) good w =
     (Ret (good + length (filter id bs)),
      w\<lparr>pings := rest, trace := trace w @ map (\<lambda>b. Ping site k (Inr b)) bs\<rparr>)"
proof (induction bs arbitrary: good w)
  case Nil
  then show ?case by (simp add: io_return_def)
next
  case (Cons b bs)
  let ?w1 = "log (Ping site k (Inr b)) (w\<lparr>pings := stl (pings w)\<rparr>)"
  have step: "ping site k w = (Ret b, ?w1)"
    using Cons.prems by (simp add: ping_def Let_def)
  have rest: "pings ?w1 = map Inr bs @- rest"
    using Cons.prems by (simp add: log_def)
  show ?case
    using Cons.IH [OF rest, of "if b then good + 1 else good"] Cons.prems
    by (simp add: io_bind_def step log_def)
qed

text \<open>
  C4. When each of the \<open>k\<close> rounds of \<open>pinger\<close> gets an answer (\<open>bs\<close> lists the success
  flags, \<open>g\<close> of them true), \<open>pinger\<close> returns Good exactly when \<open>g = k\<close>, Fail exactly
  when \<open>g = 0\<close> and Warn otherwise; nothing else is returned.
\<close>

theorem pinger_classification:
  assumes "1 \<le> k" and "length bs = k" and "pings w = map Inr bs @- rest"
  shows "\<exists>r. fst (pinger site k w) = Ret r
    \<and> (r = Good \<longleftrightarrow> length (filter id bs) = k)
    \<and> (r = Fail \<longleftrightarrow> length (filter id bs) = 0)
    \<and> (r = Warn \<longleftrightarrow> length (filter id bs) \<noteq> k \<and> length (filter id bs) \<noteq> 0)
    \<and> r \<in> {Good, Warn, Fail}"
proof -
  have "pinger_loop site k k 0 w =
      (Ret (length (filter id bs)),
       w\<lparr>pings := rest, trace := trace w @ map (\<lambda>b. Ping site k (Inr b)) bs\<rparr>)"
    using pinger_loop_all_answered [OF assms(3), of site k 0] assms(2) by simp
  then show ?thesis
    using assms(1) by (simp add: pinger_def io_bind_def io_return_def)
qed

theorem pinger_classification_witness:
  "fst (pinger ''10.0.0.1'' 2
     \<lparr>trace = [], vpn_proc = False, sd_vpnclient = False, sd_datalogfile = False,
      acts = sconst None, matches = sconst (Inr 0), alives = sconst False,
      pings = Inr True ## Inr False ## sconst (Inr True),
      clock = sconst ([], []), targets_views = sconst Absent, sleep_max = 4294967\<rparr>) = Ret Warn"
  using pinger_classification [of 2 "[True, False]"
     "\<lparr>trace = [], vpn_proc = False, sd_vpnclient = False, sd_datalogfile = False,
      acts = sconst None, matches = sconst (Inr 0), alives = sconst False,
      pings = Inr True ## Inr False ## sconst (Inr True),
      clock = sconst ([], []), targets_views = sconst Absent, sleep_max = 4294967\<rparr>"
     "sconst (Inr True)" "''10.0.0.1''"]
  by auto

subsection \<open>The VPN client\<close>

lemmas prims = act_def host_run_def spawn_def on_vpn_proc_def sendline_def expect_def terminate_def
  isalive_def print_before_def sleep_def log_def io_return_def io_bind_def io_try_def io_exit_def
  teardown_def fail_cleanup_def exit_cleanup_def Let_def emit_def PYTIME_MAX_SECONDS_def



lemma open_spawn_cases:
  assumes "open_spawn w = (r, w1)"
  shows "\<exists>es. trace w1 = trace w @ es \<and>
     ((r = Ret () \<and> es = spawn_script \<and> vpn_proc w1)
      \<or> (r = SysExit 1 \<and> \<not> prefix spawn_script es)
      \<or> (r = Raise NameError \<and> \<not> vpn_proc w \<and> \<not> prefix spawn_script es
          \<and> (\<exists>e. es = [Spawn (Some e)])))"
  using assms unfolding open_spawn_def spawn_script_def
  by (auto simp: prims split: option.splits sum.splits if_splits)







lemma then_step_cases:
  assumes "then_step s k w = (r, w2)"
  shows "(\<exists>w1. s w = (Ret None, w1) \<and> k w1 = (r, w2))
    \<or> (\<exists>v. s w = (Ret (Some v), w2) \<and> r = Ret v)
    \<or> (\<exists>e. s w = (Raise e, w2) \<and> r = Raise e)
    \<or> (\<exists>n. s w = (SysExit n, w2) \<and> r = SysExit n)"
  using assms
  by (auto simp: then_step_def io_bind_def io_return_def split: prod.splits res.splits option.splits)

lemma io_bind_cases:
  assumes "io_bind m k w = (r, w2)"
  shows "(\<exists>x w1. m w = (Ret x, w1) \<and> k x w1 = (r, w2))
    \<or> (\<exists>e. m w = (Raise e, w2) \<and> r = Raise e)
    \<or> (\<exists>n. m w = (SysExit n, w2) \<and> r = SysExit n)"
  using assms by (auto simp: io_bind_def split: prod.splits res.splits)












lemmas open_defs = vpn_open_def open_kill_others_def open_spawn_def open_start_cli_def
  open_disconnect_def open_connect_def open_credentials_def open_banner_def then_step_def
  connect_patterns_def credentials_patterns_def banner_patterns_def

lemmas script_defs = startup_script_def handshake_script_def kill_script_def spawn_script_def
  start_cli_script_def disconnect_script_def connect_script_def credentials_script_def
  banner_script_def




text \<open>
  Once an \<open>open\<close> has spawned a child process, \<open>close\<close> on a child that is not alive
  returns Good and does nothing but ask whether the child is alive.
\<close>

lemma vpn_close_not_alive:
  assumes "vpn_proc w" and "shd (alives w) = False"
  shows "vpn_close w = (Ret Good, w\<lparr>alives := stl (alives w), trace := trace w @ [Call_close, IsAlive False]\<rparr>)"
  using assms by (simp add: vpn_close_def prims)

text \<open>
  C3 at the input where the code departs from it: \<open>close\<close> called before any \<open>open\<close> has
  assigned the global \<^verbatim>\<open>vpn_proc\<close> does not return Good, it raises \<^verbatim>\<open>NameError\<close> (and does
  no I/O).
\<close>

theorem vpn_close_before_open:
  assumes "\<not> vpn_proc w"
  shows "fst (vpn_close w) = Raise NameError \<and> new_events w (snd (vpn_close w)) = [Call_close]"
  using assms by (simp add: vpn_close_def prims new_events_def)

theorem vpn_close_before_open_witness:
  "fst (vpn_close calm_world) = Raise NameError"
  using vpn_close_before_open [of calm_world] by (simp add: calm_world_def)

subsection \<open>get_targets\<close>

lemma split_at_comma:
  "(\<exists>a b cs. split_at sep (Suc n) s = a # b # cs) \<longleftrightarrow> sep \<in> set s"
  by (cases n) (auto split: if_splits)

lemma strip_newlines_comma: "CHR '','' \<in> set (strip_newlines l) \<longleftrightarrow> CHR '','' \<in> set l"
  by (auto simp: strip_newlines_def)

lemma targets_loop_Inr:
  "(\<exists>t. targets_loop ls acc = Inr t) \<longleftrightarrow> (\<forall>l \<in> set ls. CHR '','' \<in> set l)"
proof (induction ls arbitrary: acc)
  case Nil
  then show ?case by simp
next
  case (Cons l ls)
  show ?case
  proof (cases "CHR '','' \<in> set l")
    case True
    then have "CHR '','' \<in> set (strip_newlines l)" by (simp add: strip_newlines_comma)
    then obtain a b cs where "split_at (CHR '','') 2 (strip_newlines l) = a # b # cs"
      using split_at_comma [of "CHR '',''" 1 "strip_newlines l"] by (auto simp: numeral_2_eq_2)
    then show ?thesis using True Cons.IH by simp
  next
    case False
    then have "CHR '','' \<notin> set (strip_newlines l)" by (simp add: strip_newlines_comma)
    then have "split_at (CHR '','') 2 (strip_newlines l) = [strip_newlines l]"
      by (simp add: numeral_2_eq_2)
    then show ?thesis using False by simp
  qed
qed

text \<open>
  C10. For a targets file that exists and can be read, \<open>get_targets\<close> returns a
  dictionary exactly when every line has a comma; a single line without one (an empty
  line too) ends the program with \<^verbatim>\<open>exit(1)\<close>: the line is not skipped, and the targets read
  so far are not returned.
\<close>

theorem get_targets_needs_commas:
  assumes "shd (targets_views w) = Lines ls"
  shows "((\<exists>targets. fst (get_targets targets_file w) = Ret targets)
            \<longleftrightarrow> (\<forall>l \<in> set ls. CHR '','' \<in> set l))
    \<and> ((\<exists>l \<in> set ls. CHR '','' \<notin> set l) \<longrightarrow> fst (get_targets targets_file w) = SysExit 1)"
proof (cases "targets_loop ls []")
  case (Inl e)
  with targets_loop_Inr [of ls "[]"] assms show ?thesis
    by (auto simp: get_targets_def get_targets_of_def)
next
  case (Inr t)
  with targets_loop_Inr [of ls "[]"] assms show ?thesis
    by (auto simp: get_targets_def get_targets_of_def)
qed

theorem get_targets_needs_commas_witness:
  "fst (get_targets ''vpnmon_targets.csv''
     (calm_world\<lparr>targets_views :=
        Lines [''10.0.0.2,host-a'' @ [CHR 0x0A], [CHR 0x0A], ''10.0.0.3,host-b'' @ [CHR 0x0A]]
          ## sconst Absent\<rparr>)) = SysExit 1"
  using get_targets_needs_commas [of
    "calm_world\<lparr>targets_views :=
        Lines [''10.0.0.2,host-a'' @ [CHR 0x0A], [CHR 0x0A], ''10.0.0.3,host-b'' @ [CHR 0x0A]]
          ## sconst Absent\<rparr>"
    "[''10.0.0.2,host-a'' @ [CHR 0x0A], [CHR 0x0A], ''10.0.0.3,host-b'' @ [CHR 0x0A]]"
    "''vpnmon_targets.csv''"]
  by (simp add: calm_world_def)

subsection \<open>The layers a computation writes to\<close>

lemma steadyD:
  assumes "steady S m" and "m w = (r, w1)"
  shows "(vpn_proc w \<longrightarrow> vpn_proc w1) \<and> (sd_vpnclient w \<longrightarrow> sd_vpnclient w1) \<and>
        (\<exists>es. trace w1 = trace w @ es \<and> (\<forall>e \<in> set es. cls e \<in> S))"
  using assms unfolding steady_def by blast

lemma steady_mono: "steady S m \<Longrightarrow> S \<subseteq> T \<Longrightarrow> steady T m"
  unfolding steady_def by blast

lemma steady_return [intro!]: "steady S (io_return x)"
  by (simp add: steady_def io_return_def)

lemma steady_exit [intro!]: "steady S (io_exit n)"
  by (simp add: steady_def io_exit_def)

lemma steady_emit: "cls e \<in> S \<Longrightarrow> steady S (emit e)"
  by (auto simp: steady_def emit_def log_def)

lemma steady_act: "(\<And>r. cls (ev r) \<in> S) \<Longrightarrow> steady S (act ev)"
  by (auto simp: steady_def act_def log_def Let_def split: option.splits)

lemma steady_sleep: "cls (Sleep p) \<in> S \<Longrightarrow> steady S (sleep p)"
  by (auto simp: steady_def sleep_def log_def split: pause.splits if_splits)

lemma steady_date_and_tod [intro!]: "steady S date_and_tod"
  by (auto simp: steady_def date_and_tod_def)

lemma steady_bind [intro!]:
  assumes "steady S m" and "\<And>x. steady S (f x)"
  shows "steady S (io_bind m f)"
  unfolding steady_def
proof (intro allI impI)
  fix w r w2 assume run: "io_bind m f w = (r, w2)"
  from io_bind_cases [OF run]
  consider (go) x w1 where "m w = (Ret x, w1)" "f x w1 = (r, w2)"
    | (stop) rm where "m w = (rm, w2)"
    by auto
  then show "(vpn_proc w \<longrightarrow> vpn_proc w2) \<and> (sd_vpnclient w \<longrightarrow> sd_vpnclient w2) \<and>
        (\<exists>es. trace w2 = trace w @ es \<and> (\<forall>e \<in> set es. cls e \<in> S))"
  proof cases
    case go
    from steadyD [OF assms(1) go(1)] steadyD [OF assms(2) go(2)] show ?thesis
      by auto
  next
    case stop
    from steadyD [OF assms(1) stop] show ?thesis .
  qed
qed

lemma steady_try [intro!]:
  assumes "steady S m" and "\<And>e. steady S (h e)"
  shows "steady S (io_try m h)"
  unfolding steady_def
proof (intro allI impI)
  fix w r w2 assume run: "io_try m h w = (r, w2)"
  then consider (caught) e w1 where "m w = (Raise e, w1)" "h e w1 = (r, w2)"
    | (through) "m w = (r, w2)"
    by (auto simp: io_try_def split: prod.splits res.splits)
  then show "(vpn_proc w \<longrightarrow> vpn_proc w2) \<and> (sd_vpnclient w \<longrightarrow> sd_vpnclient w2) \<and>
        (\<exists>es. trace w2 = trace w @ es \<and> (\<forall>e \<in> set es. cls e \<in> S))"
  proof cases
    case caught
    from steadyD [OF assms(1) caught(1)] steadyD [OF assms(2) caught(2)] show ?thesis
      by auto
  next
    case through
    from steadyD [OF assms(1) through] show ?thesis .
  qed
qed

lemma steady_try_pass [intro!]: "steady S m \<Longrightarrow> steady S (io_try_pass m)"
  by (auto simp: steady_def io_try_pass_def split: prod.splits)

lemma steady_on_vpn_proc [intro!]: "steady S m \<Longrightarrow> steady S (on_vpn_proc m)"
  by (auto simp: steady_def on_vpn_proc_def split: if_splits)

lemma steady_if [intro!]: "steady S a \<Longrightarrow> steady S b \<Longrightarrow> steady S (if c then a else b)"
  by simp

lemma steady_case_prod [intro!]: "(\<And>a b. steady S (f a b)) \<Longrightarrow> steady S (case x of (a, b) \<Rightarrow> f a b)"
  by (cases x) simp

lemma steady_case_option [intro!]:
  "steady S a \<Longrightarrow> (\<And>v. steady S (f v)) \<Longrightarrow> steady S (case x of None \<Rightarrow> a | Some v \<Rightarrow> f v)"
  by (cases x) simp_all

lemma steady_then_step [intro!]: "steady S s \<Longrightarrow> steady S k \<Longrightarrow> steady S (then_step s k)"
  unfolding then_step_def by (intro steady_bind steady_case_option steady_return)

lemma steady_host_run: "L_session \<in> S \<Longrightarrow> steady S (host_run cmd)"
  unfolding host_run_def by (rule steady_act) simp

lemma steady_sendline: "L_session \<in> S \<Longrightarrow> steady S (sendline s)"
  unfolding sendline_def by (intro steady_on_vpn_proc steady_act) simp

lemma steady_terminate: "L_session \<in> S \<Longrightarrow> steady S terminate"
  unfolding terminate_def by (intro steady_on_vpn_proc steady_act) simp

lemma steady_expect: "L_session \<in> S \<Longrightarrow> steady S (expect ps)"
  by (auto simp: steady_def expect_def on_vpn_proc_def log_def Let_def
      split: if_splits sum.splits)

lemma steady_isalive: "L_session \<in> S \<Longrightarrow> steady S isalive"
  by (auto simp: steady_def isalive_def on_vpn_proc_def log_def Let_def split: if_splits)

lemma steady_spawn: "L_session \<in> S \<Longrightarrow> steady S spawn"
  by (auto simp: steady_def spawn_def act_def io_bind_def log_def Let_def split: option.splits)

lemma steady_print_before [intro!]: "steady S print_before"
  unfolding print_before_def by (intro steady_on_vpn_proc steady_return)

lemma steady_cmd_sleep: "L_session \<in> S \<Longrightarrow> steady S (sleep CmdDelay)"
  by (rule steady_sleep) simp

lemmas steady_session = steady_host_run steady_sendline steady_terminate steady_expect
  steady_isalive steady_spawn steady_cmd_sleep

lemma steady_teardown: "L_session \<in> S \<Longrightarrow> steady S teardown"
  unfolding teardown_def by (intro steady_bind steady_try steady_return steady_session)

lemma steady_fail_cleanup: "L_session \<in> S \<Longrightarrow> steady S fail_cleanup"
  unfolding fail_cleanup_def
  by (intro steady_bind steady_return steady_print_before steady_teardown)

lemma steady_vpn_close: "L_session \<in> S \<Longrightarrow> L_close \<in> S \<Longrightarrow> steady S vpn_close"
  unfolding vpn_close_def close_disconnect_def close_exit_def close_terminate_def
  by (intro steady_bind steady_if steady_then_step steady_try steady_return steady_emit
      steady_fail_cleanup steady_session) simp_all

lemma steady_vpn_open: "L_session \<in> S \<Longrightarrow> L_open \<in> S \<Longrightarrow> steady S (vpn_open site user pass)"
  unfolding vpn_open_def open_kill_others_def open_spawn_def open_start_cli_def
    open_disconnect_def open_connect_def open_credentials_def open_banner_def exit_cleanup_def
  by (intro steady_bind steady_if steady_then_step steady_try steady_return steady_emit
      steady_exit steady_print_before steady_teardown
      steady_fail_cleanup steady_session) simp_all

subsection \<open>datalogger\<close>

lemma write_entries_ok:
  "acts w = replicate (length d) None @- rest \<Longrightarrow>
   write_entries d w =
     (Ret (), w\<lparr>acts := rest, trace := trace w @ map (\<lambda>(entry, line). FileWrite line None) d\<rparr>)"
proof (induction d arbitrary: w)
  case Nil
  then show ?case by (simp add: io_return_def)
next
  case (Cons a d)
  obtain entry line where a: "a = (entry, line)" by (cases a)
  let ?w1 = "w\<lparr>acts := stl (acts w), trace := trace w @ [FileWrite line None]\<rparr>"
  have step: "act (FileWrite line) w = (Ret (), ?w1)"
    using Cons.prems by (simp add: act_def log_def Let_def)
  have "acts ?w1 = replicate (length d) None @- rest"
    using Cons.prems by simp
  from Cons.IH [OF this] step Cons.prems show ?case
    by (simp add: a io_bind_def)
qed

lemma write_attempt_ok:
  assumes "acts w = replicate (length d + 2) None @- rest"
  shows "write_attempt f d w =
     (Ret (), w\<lparr>acts := rest, sd_datalogfile := True, trace := trace w @ written f d\<rparr>)"
proof -
  let ?w1 = "w\<lparr>acts := stl (acts w), trace := trace w @ [FileOpen f None],
                sd_datalogfile := True\<rparr>"
  have "replicate (length d + 2) None = (None :: exn option) # replicate (length d) None @ [None]"
    by (simp add: replicate_append_same)
  then have a0: "acts w = None ## replicate (length d) None @- None ## rest"
    using assms by simp
  have op: "file_open f w = (Ret (), ?w1)"
    using a0 by (simp add: file_open_def act_def io_bind_def log_def Let_def)
  have "acts ?w1 = replicate (length d) None @- (None ## rest)"
    using a0 by simp
  from write_entries_ok [OF this] op a0 show ?thesis
    by (simp add: write_attempt_def io_bind_def act_def log_def Let_def written_def)
qed

lemma write_attempt_denied:
  assumes "shd (acts w) = Some e"
  shows "write_attempt f d w =
     (Raise e, w\<lparr>acts := stl (acts w), trace := trace w @ [FileOpen f (Some e)]\<rparr>)"
  using assms by (simp add: write_attempt_def file_open_def io_bind_def act_def log_def Let_def)

lemma datalogger_loop_clears:
  "n < m \<Longrightarrow>
   acts w = replicate n (Some PermissionError) @- replicate (length d + 2) None @- rest \<Longrightarrow>
   fst (datalogger_loop f d m rv w) = Ret Good \<and>
   trace (snd (datalogger_loop f d m rv w)) = trace w @ contended f n @ written f d"
proof (induction n arbitrary: m w)
  case 0
  then obtain k where m: "m = Suc k" by (cases m) auto
  from write_attempt_ok [of w d rest f] 0 show ?case
    by (simp add: m contended_def io_return_def)
next
  case (Suc n)
  then obtain k where m: "m = Suc k" and k: "n < k" "0 < k" by (cases m) auto
  let ?w1 = "w\<lparr>acts := stl (acts w), trace := trace w @ [FileOpen f (Some PermissionError)]\<rparr>"
  let ?w2 = "log (Sleep RetryDelay) ?w1"
  have att: "write_attempt f d w = (Raise PermissionError, ?w1)"
    using Suc.prems(2) by (intro write_attempt_denied) simp
  have "acts ?w2 = replicate n (Some PermissionError) @- replicate (length d + 2) None @- rest"
    using Suc.prems(2) by (simp add: log_def)
  from Suc.IH [OF k(1) this] att k(2) show ?case
    by (simp add: m io_bind_def sleep_def log_def contended_def)
qed

lemma datalogger_loop_exhausted:
  "0 < m \<Longrightarrow> acts w = replicate m (Some PermissionError) @- rest \<Longrightarrow>
   fst (datalogger_loop f d m rv w) = Ret rv \<and>
   trace (snd (datalogger_loop f d m rv w)) =
     trace w @ contended f (m - 1) @ [FileOpen f (Some PermissionError)]"
proof (induction m arbitrary: w)
  case 0
  then show ?case by simp
next
  case (Suc k)
  let ?w1 = "w\<lparr>acts := stl (acts w), trace := trace w @ [FileOpen f (Some PermissionError)]\<rparr>"
  let ?w2 = "log (Sleep RetryDelay) ?w1"
  have att: "write_attempt f d w = (Raise PermissionError, ?w1)"
    using Suc.prems(2) by (intro write_attempt_denied) simp
  show ?case
  proof (cases k)
    case 0
    with att show ?thesis by (simp add: io_bind_def io_return_def contended_def)
  next
    case (Suc j)
    have "acts ?w2 = replicate k (Some PermissionError) @- rest"
      using Suc.prems(2) by (simp add: log_def)
    from Suc.IH [OF _ this] att Suc show ?thesis
      by (simp add: io_bind_def sleep_def log_def contended_def)
  qed
qed

text \<open>
  C6. The retry bound is 5. When the file is held by another program for fewer than 5
  consecutive attempts and then can be opened and written, \<open>datalogger\<close> retries after
  each refusal, writes every entry and returns Good. When the file is still held at the
  fifth attempt, \<open>datalogger\<close> returns Fail after four waits: it neither raises nor ends
  the program.
\<close>

theorem datalogger_contention:
  "VPNMON_DATALOG_WRITE_MAX_RETRIES = 5
   \<and> (n < VPNMON_DATALOG_WRITE_MAX_RETRIES
      \<and> acts w = replicate n (Some PermissionError) @- replicate (length d + 2) None @- rest
      \<longrightarrow> fst (datalogger f d w) = Ret Good
          \<and> new_events w (snd (datalogger f d w))
              = Call_datalogger d # contended f n @ written f d)
   \<and> (acts w = replicate VPNMON_DATALOG_WRITE_MAX_RETRIES (Some PermissionError) @- rest
      \<longrightarrow> fst (datalogger f d w) = Ret Fail
          \<and> new_events w (snd (datalogger f d w))
              = Call_datalogger d # contended f 4 @ [FileOpen f (Some PermissionError)])"
proof (intro conjI impI)
  show "VPNMON_DATALOG_WRITE_MAX_RETRIES = 5"
    by (simp add: VPNMON_DATALOG_WRITE_MAX_RETRIES_def)
next
  assume a: "n < VPNMON_DATALOG_WRITE_MAX_RETRIES
      \<and> acts w = replicate n (Some PermissionError) @- replicate (length d + 2) None @- rest"
  let ?w0 = "log (Call_datalogger d) w"
  have "acts ?w0 = replicate n (Some PermissionError) @- replicate (length d + 2) None @- rest"
    using a by (simp add: log_def)
  from datalogger_loop_clears [OF _ this, where m = VPNMON_DATALOG_WRITE_MAX_RETRIES and f = f and rv = Fail] a
  have "fst (datalogger f d w) = Ret Good \<and> new_events w (snd (datalogger f d w))
              = Call_datalogger d # contended f n @ written f d"
    by (simp add: datalogger_def io_bind_def emit_def new_events_def log_def)
  then show "fst (datalogger f d w) = Ret Good"
    and "new_events w (snd (datalogger f d w)) = Call_datalogger d # contended f n @ written f d"
    by simp_all
next
  assume a: "acts w = replicate VPNMON_DATALOG_WRITE_MAX_RETRIES (Some PermissionError) @- rest"
  let ?w0 = "log (Call_datalogger d) w"
  have "acts ?w0 = replicate VPNMON_DATALOG_WRITE_MAX_RETRIES (Some PermissionError) @- rest"
    using a by (simp add: log_def)
  from datalogger_loop_exhausted [OF _ this, where f = f and d = d and rv = Fail]
  have "fst (datalogger f d w) = Ret Fail \<and> new_events w (snd (datalogger f d w))
              = Call_datalogger d # contended f 4 @ [FileOpen f (Some PermissionError)]"
    by (simp add: datalogger_def io_bind_def emit_def new_events_def log_def
        VPNMON_DATALOG_WRITE_MAX_RETRIES_def)
  then show "fst (datalogger f d w) = Ret Fail"
    and "new_events w (snd (datalogger f d w))
              = Call_datalogger d # contended f 4 @ [FileOpen f (Some PermissionError)]"
    by simp_all
qed


theorem datalogger_contention_witness:
  "fst (datalogger ''vpnmon_datalog.csv'' sample_results
      (calm_world\<lparr>acts := Some PermissionError ## Some PermissionError ## sconst None\<rparr>))
     = Ret Good
   \<and> fst (datalogger ''vpnmon_datalog.csv'' sample_results
      (calm_world\<lparr>acts := sconst (Some PermissionError)\<rparr>)) = Ret Fail"
proof -
  have a: "Some PermissionError ## Some PermissionError ## sconst None
      = replicate 2 (Some PermissionError) @- replicate (length sample_results + 2) None
          @- sconst None"
    unfolding shift_replicate_sconst by (simp add: numeral_2_eq_2)
  have b: "sconst (Some PermissionError)
      = replicate VPNMON_DATALOG_WRITE_MAX_RETRIES (Some PermissionError)
          @- sconst (Some PermissionError)"
    by simp
  from datalogger_contention
    [of 2 "calm_world\<lparr>acts := Some PermissionError ## Some PermissionError ## sconst None\<rparr>"
       sample_results "sconst None" "''vpnmon_datalog.csv''"] a
  have 1: "fst (datalogger ''vpnmon_datalog.csv'' sample_results
      (calm_world\<lparr>acts := Some PermissionError ## Some PermissionError ## sconst None\<rparr>))
     = Ret Good"
    by (simp add: VPNMON_DATALOG_WRITE_MAX_RETRIES_def)
  from datalogger_contention
    [where w = "calm_world\<lparr>acts := sconst (Some PermissionError)\<rparr>"
       and rest = "sconst (Some PermissionError)"] b
  have 2: "fst (datalogger ''vpnmon_datalog.csv'' sample_results
      (calm_world\<lparr>acts := sconst (Some PermissionError)\<rparr>)) = Ret Fail"
    by simp
  from 1 2 show ?thesis by simp
qed

lemma fatal_io_file: "fatal_io x \<Longrightarrow> cls x = L_file"
  by (cases x rule: fatal_io.cases) simp_all

lemma write_entries_cases:
  "write_entries d w = (r, w1) \<Longrightarrow>
   \<exists>es. trace w1 = trace w @ es \<and> sd_vpnclient w1 = sd_vpnclient w \<and>
     ((r = Ret () \<and> (\<forall>x \<in> set es. \<not> fatal_io x))
      \<or> (\<exists>e pre x. r = Raise e \<and> es = pre @ [x] \<and> (\<forall>y \<in> set pre. \<not> fatal_io y)
            \<and> (fatal_io x \<longleftrightarrow> e \<noteq> PermissionError)))"
proof (induction d arbitrary: w)
  case Nil
  then show ?case by (auto simp: io_return_def)
next
  case (Cons a d)
  obtain entry line where a: "a = (entry, line)" by (cases a)
  show ?case
  proof (cases "shd (acts w)")
    case None
    let ?w1 = "w\<lparr>acts := stl (acts w), trace := trace w @ [FileWrite line None]\<rparr>"
    have "write_entries d ?w1 = (r, w1)"
      using Cons.prems None by (simp add: a io_bind_def act_def log_def Let_def)
    from Cons.IH [OF this] obtain es where
      es: "trace w1 = trace w @ FileWrite line None # es" "sd_vpnclient w1 = sd_vpnclient w"
        "(r = Ret () \<and> (\<forall>x \<in> set es. \<not> fatal_io x))
          \<or> (\<exists>e pre x. r = Raise e \<and> es = pre @ [x] \<and> (\<forall>y \<in> set pre. \<not> fatal_io y)
            \<and> (fatal_io x \<longleftrightarrow> e \<noteq> PermissionError))"
      by auto
    from es(3) show ?thesis
    proof
      assume "r = Ret () \<and> (\<forall>x \<in> set es. \<not> fatal_io x)"
      with es(1,2) show ?thesis by auto
    next
      assume "\<exists>e pre x. r = Raise e \<and> es = pre @ [x] \<and> (\<forall>y \<in> set pre. \<not> fatal_io y)
            \<and> (fatal_io x \<longleftrightarrow> e \<noteq> PermissionError)"
      then obtain e pre x where "r = Raise e" "es = pre @ [x]" "\<forall>y \<in> set pre. \<not> fatal_io y"
        "fatal_io x \<longleftrightarrow> e \<noteq> PermissionError" by blast
      then have "r = Raise e \<and> FileWrite line None # es = (FileWrite line None # pre) @ [x]
          \<and> (\<forall>y \<in> set (FileWrite line None # pre). \<not> fatal_io y)
          \<and> (fatal_io x \<longleftrightarrow> e \<noteq> PermissionError)"
        by simp
      with es(1,2) show ?thesis by blast
    qed
  next
    case (Some e)
    then have "r = Raise e" "w1 = w\<lparr>acts := stl (acts w), trace := trace w @ [FileWrite line (Some e)]\<rparr>"
      using Cons.prems by (simp_all add: a io_bind_def act_def log_def Let_def)
    then have "trace w1 = trace w @ [FileWrite line (Some e)]" "sd_vpnclient w1 = sd_vpnclient w"
      "r = Raise e \<and> [FileWrite line (Some e)] = [] @ [FileWrite line (Some e)]
        \<and> (\<forall>y \<in> set []. \<not> fatal_io y)
        \<and> (fatal_io (FileWrite line (Some e)) \<longleftrightarrow> e \<noteq> PermissionError)"
      by simp_all
    then show ?thesis by blast
  qed
qed


lemma write_attempt_cases:
  assumes "write_attempt f d w = (r, w1)"
  shows "\<exists>es. trace w1 = trace w @ es \<and> sd_vpnclient w1 = sd_vpnclient w \<and>
     ((r = Ret () \<and> (\<forall>x \<in> set es. \<not> fatal_io x))
      \<or> (\<exists>e pre x. r = Raise e \<and> es = pre @ [x] \<and> (\<forall>y \<in> set pre. \<not> fatal_io y)
            \<and> (fatal_io x \<longleftrightarrow> e \<noteq> PermissionError)))"
proof (cases "shd (acts w)")
  case (Some e)
  from write_attempt_denied [OF this, of f d] assms
  have "trace w1 = trace w @ [FileOpen f (Some e)]" "sd_vpnclient w1 = sd_vpnclient w"
    "r = Raise e \<and> [FileOpen f (Some e)] = [] @ [FileOpen f (Some e)]
      \<and> (\<forall>y \<in> set []. \<not> fatal_io y)
      \<and> (fatal_io (FileOpen f (Some e)) \<longleftrightarrow> e \<noteq> PermissionError)"
    by auto
  then show ?thesis by blast
next
  case None
  let ?w1 = "w\<lparr>acts := stl (acts w), trace := trace w @ [FileOpen f None],
                sd_datalogfile := True\<rparr>"
  have op: "file_open f w = (Ret (), ?w1)"
    using None by (simp add: file_open_def act_def io_bind_def log_def Let_def)
  obtain r2 w2 where we: "write_entries d ?w1 = (r2, w2)" by force
  from write_entries_cases [OF we] obtain es where
    es: "trace w2 = trace w @ FileOpen f None # es" "sd_vpnclient w2 = sd_vpnclient w"
      "(r2 = Ret () \<and> (\<forall>x \<in> set es. \<not> fatal_io x))
        \<or> (\<exists>e pre x. r2 = Raise e \<and> es = pre @ [x] \<and> (\<forall>y \<in> set pre. \<not> fatal_io y)
          \<and> (fatal_io x \<longleftrightarrow> e \<noteq> PermissionError))"
    by auto
  from es(3) show ?thesis
  proof
    assume ok: "r2 = Ret () \<and> (\<forall>x \<in> set es. \<not> fatal_io x)"
    then have cl: "act FileClose w2 = (r, w1)"
      using assms op we by (simp add: write_attempt_def io_bind_def)
    show ?thesis
    proof (cases "shd (acts w2)")
      case None
      with cl have "r = Ret ()" "trace w1 = trace w2 @ [FileClose None]"
        "sd_vpnclient w1 = sd_vpnclient w2"
        by (auto simp: act_def log_def Let_def)
      with es(1,2) ok show ?thesis by auto
    next
      case (Some e)
      with cl have "r = Raise e" "trace w1 = trace w2 @ [FileClose (Some e)]"
        "sd_vpnclient w1 = sd_vpnclient w2"
        by (auto simp: act_def log_def Let_def)
      with es(1,2) ok
      have "trace w1 = trace w @ (FileOpen f None # es) @ [FileClose (Some e)]"
        "sd_vpnclient w1 = sd_vpnclient w"
        "r = Raise e \<and> (FileOpen f None # es) @ [FileClose (Some e)]
            = (FileOpen f None # es) @ [FileClose (Some e)]
          \<and> (\<forall>y \<in> set (FileOpen f None # es). \<not> fatal_io y)
          \<and> (fatal_io (FileClose (Some e)) \<longleftrightarrow> e \<noteq> PermissionError)"
        by auto
      then show ?thesis by blast
    qed
  next
    assume "\<exists>e pre x. r2 = Raise e \<and> es = pre @ [x] \<and> (\<forall>y \<in> set pre. \<not> fatal_io y)
          \<and> (fatal_io x \<longleftrightarrow> e \<noteq> PermissionError)"
    then obtain e pre x where bad: "r2 = Raise e" "es = pre @ [x]"
      "\<forall>y \<in> set pre. \<not> fatal_io y" "fatal_io x \<longleftrightarrow> e \<noteq> PermissionError"
      by blast
    then have "r = Raise e" "w1 = w2"
      using assms op we by (simp_all add: write_attempt_def io_bind_def)
    with es(1,2) bad
    have "trace w1 = trace w @ (FileOpen f None # pre) @ [x]" "sd_vpnclient w1 = sd_vpnclient w"
      "r = Raise e \<and> (FileOpen f None # pre) @ [x] = (FileOpen f None # pre) @ [x]
        \<and> (\<forall>y \<in> set (FileOpen f None # pre). \<not> fatal_io y)
        \<and> (fatal_io x \<longleftrightarrow> e \<noteq> PermissionError)"
      by auto
    then show ?thesis by blast
  qed
qed

lemma vpn_close_events:
  assumes "vpn_close w = (r, w1)"
  shows "\<exists>post. trace w1 = trace w @ Call_close # post \<and> (\<forall>y \<in> set post. cls y = L_session)"
proof -
  let ?rest = "io_bind isalive (\<lambda>alive.
       if \<not> alive then io_return Good
       else then_step close_disconnect
              (then_step close_exit (then_step close_terminate (io_return Good))))"
  have st: "steady {L_session} ?rest"
    unfolding close_disconnect_def close_exit_def close_terminate_def
    by (intro steady_bind steady_if steady_then_step steady_try steady_return
        steady_fail_cleanup steady_session) simp_all
  have "?rest (log Call_close w) = (r, w1)"
    using assms by (simp add: vpn_close_def io_bind_def emit_def)
  from steadyD [OF st this] show ?thesis
    by (auto simp: log_def)
qed

lemma closed_after_failure_shift:
  "closed_after_failure es \<Longrightarrow> \<forall>y \<in> set pre. \<not> fatal_io y \<Longrightarrow> closed_after_failure (pre @ es)"
proof -
  assume "closed_after_failure es" and pre: "\<forall>y \<in> set pre. \<not> fatal_io y"
  then obtain p x post where "es = p @ x # Call_close # post" "fatal_io x"
    "\<forall>y \<in> set p. \<not> fatal_io y" "\<forall>y \<in> set post. cls y = L_session"
    unfolding closed_after_failure_def by blast
  with pre have "pre @ es = (pre @ p) @ x # Call_close # post \<and> fatal_io x
        \<and> (\<forall>y \<in> set (pre @ p). \<not> fatal_io y) \<and> (\<forall>y \<in> set post. cls y = L_session)"
    by auto
  then show ?thesis unfolding closed_after_failure_def by blast
qed

lemma datalogger_loop_cases:
  "datalogger_loop f d m rv w = (r, w1) \<Longrightarrow> sd_vpnclient w \<Longrightarrow>
   \<exists>es. trace w1 = trace w @ es \<and>
     (((r = Ret Good \<or> r = Ret rv) \<and> (\<forall>x \<in> set es. \<not> fatal_io x))
      \<or> (r = SysExit 1 \<and> closed_after_failure es))"
proof (induction m arbitrary: w)
  case 0
  then show ?case by (auto simp: io_return_def)
next
  case (Suc n)
  obtain ra wa where att: "write_attempt f d w = (ra, wa)" by force
  from write_attempt_cases [OF att] obtain es where
    es: "trace wa = trace w @ es" "sd_vpnclient wa = sd_vpnclient w"
      "(ra = Ret () \<and> (\<forall>x \<in> set es. \<not> fatal_io x))
        \<or> (\<exists>e pre x. ra = Raise e \<and> es = pre @ [x] \<and> (\<forall>y \<in> set pre. \<not> fatal_io y)
          \<and> (fatal_io x \<longleftrightarrow> e \<noteq> PermissionError))"
    by blast
  from es(3) show ?case
  proof
    assume ok: "ra = Ret () \<and> (\<forall>x \<in> set es. \<not> fatal_io x)"
    with Suc.prems(1) att have "r = Ret Good" "w1 = wa"
      by (simp_all add: io_return_def)
    with es(1) ok show ?thesis by auto
  next
    assume "\<exists>e pre x. ra = Raise e \<and> es = pre @ [x] \<and> (\<forall>y \<in> set pre. \<not> fatal_io y)
          \<and> (fatal_io x \<longleftrightarrow> e \<noteq> PermissionError)"
    then obtain e pre x where bad: "ra = Raise e" "es = pre @ [x]"
      "\<forall>y \<in> set pre. \<not> fatal_io y" "fatal_io x \<longleftrightarrow> e \<noteq> PermissionError"
      by blast
    show ?thesis
    proof (cases "e = PermissionError")
      case True
      with bad have calm: "\<forall>y \<in> set es. \<not> fatal_io y" by auto
      define ws where "ws = (if 0 < n then log (Sleep RetryDelay) wa else wa)"
      define sl where "sl = (if 0 < n then [Sleep RetryDelay] else [])"
      have ws: "trace ws = trace w @ es @ sl" "sd_vpnclient ws" "\<forall>y \<in> set (es @ sl). \<not> fatal_io y"
        using es(1,2) Suc.prems(2) calm by (auto simp: ws_def sl_def log_def)
      have "datalogger_loop f d n rv ws = (r, w1)"
        using Suc.prems(1) att bad(1) True
        by (auto simp: ws_def io_bind_def sleep_def io_return_def split: if_splits)
      from Suc.IH [OF this ws(2)] obtain es2 where
        es2: "trace w1 = trace ws @ es2"
          "((r = Ret Good \<or> r = Ret rv) \<and> (\<forall>x \<in> set es2. \<not> fatal_io x))
            \<or> (r = SysExit 1 \<and> closed_after_failure es2)"
        by blast
      from es2(2) show ?thesis
      proof
        assume "(r = Ret Good \<or> r = Ret rv) \<and> (\<forall>x \<in> set es2. \<not> fatal_io x)"
        with es2(1) ws(1,3) have "trace w1 = trace w @ (es @ sl) @ es2"
          "(r = Ret Good \<or> r = Ret rv) \<and> (\<forall>x \<in> set ((es @ sl) @ es2). \<not> fatal_io x)"
          by auto
        then show ?thesis by blast
      next
        assume "r = SysExit 1 \<and> closed_after_failure es2"
        with es2(1) ws(1) closed_after_failure_shift [OF _ ws(3), of es2]
        have "trace w1 = trace w @ (es @ sl) @ es2"
          "r = SysExit 1 \<and> closed_after_failure ((es @ sl) @ es2)"
          by auto
        then show ?thesis by blast
      qed
    next
      case False
      obtain rc wc where cl: "vpn_close wa = (rc, wc)" by force
      from vpn_close_events [OF cl] obtain post where
        post: "trace wc = trace wa @ Call_close # post" "\<forall>y \<in> set post. cls y = L_session"
        by blast
      have "r = SysExit 1" "w1 = wc"
        using Suc.prems att bad(1) False es(2) cl
        by (simp_all add: io_bind_def io_try_pass_def sd_vpnclient_close_def io_exit_def)
      moreover have "closed_after_failure (es @ Call_close # post)"
        unfolding closed_after_failure_def using bad False post(2) by auto
      ultimately have "trace w1 = trace w @ (es @ Call_close # post)"
        "r = SysExit 1 \<and> closed_after_failure (es @ Call_close # post)"
        using es(1) post(1) by auto
      then show ?thesis by blast
    qed
  qed
qed

text \<open>
  C7. A \<open>datalogger\<close> call (made while the shared VPN client exists, as in \<open>main\<close>)
  ends the program exactly when a file operation raises something other than
  \<^verbatim>\<open>PermissionError\<close>; then \<open>close\<close> is called right after the failed operation, whatever
  \<open>close\<close> returns or raises is dropped, no further file operation is tried, and the
  program leaves with \<^verbatim>\<open>exit(1)\<close>.
\<close>

theorem datalogger_fatal:
  assumes "datalogger f d w = (r, w1)" and "sd_vpnclient w"
  shows "((\<exists>x \<in> set (new_events w w1). fatal_io x) \<longleftrightarrow> r = SysExit 1)
    \<and> (r = SysExit 1 \<longrightarrow>
          (\<exists>es. new_events w w1 = Call_datalogger d # es \<and> closed_after_failure es))
    \<and> (r = Ret Good \<or> r = Ret Fail \<or> r = SysExit 1)"
proof -
  let ?w0 = "log (Call_datalogger d) w"
  have run: "datalogger_loop f d VPNMON_DATALOG_WRITE_MAX_RETRIES Fail ?w0 = (r, w1)"
    using assms(1) by (simp add: datalogger_def io_bind_def emit_def)
  have "sd_vpnclient ?w0" using assms(2) by (simp add: log_def)
  from datalogger_loop_cases [OF run this] obtain es where
    es: "trace w1 = trace w @ Call_datalogger d # es"
      "((r = Ret Good \<or> r = Ret Fail) \<and> (\<forall>x \<in> set es. \<not> fatal_io x))
        \<or> (r = SysExit 1 \<and> closed_after_failure es)"
    by (auto simp: log_def)
  have ne: "new_events w w1 = Call_datalogger d # es"
    using es(1) by (simp add: new_events_def)
  from es(2) show ?thesis
  proof
    assume "(r = Ret Good \<or> r = Ret Fail) \<and> (\<forall>x \<in> set es. \<not> fatal_io x)"
    then show ?thesis unfolding ne by auto
  next
    assume a: "r = SysExit 1 \<and> closed_after_failure es"
    then have "\<exists>x \<in> set es. fatal_io x"
      unfolding closed_after_failure_def by auto
    with a show ?thesis unfolding ne by auto
  qed
qed

theorem datalogger_fatal_witness:
  "fst (datalogger ''vpnmon_datalog.csv'' sample_results
      (calm_world\<lparr>sd_vpnclient := True, acts := Some OtherError ## sconst None\<rparr>)) = SysExit 1
   \<and> new_events (calm_world\<lparr>sd_vpnclient := True, acts := Some OtherError ## sconst None\<rparr>)
       (snd (datalogger ''vpnmon_datalog.csv'' sample_results
         (calm_world\<lparr>sd_vpnclient := True, acts := Some OtherError ## sconst None\<rparr>)))
       = [Call_datalogger sample_results, FileOpen ''vpnmon_datalog.csv'' (Some OtherError),
          Call_close]"
proof -
  let ?w = "calm_world\<lparr>sd_vpnclient := True, acts := Some OtherError ## sconst None\<rparr>"
  obtain r w1 where run: "datalogger ''vpnmon_datalog.csv'' sample_results ?w = (r, w1)"
    by force
  have ev: "new_events ?w w1
       = [Call_datalogger sample_results, FileOpen ''vpnmon_datalog.csv'' (Some OtherError),
          Call_close]"
    using run
    by (auto simp: datalogger_def VPNMON_DATALOG_WRITE_MAX_RETRIES_def write_attempt_def
        file_open_def io_try_pass_def sd_vpnclient_close_def vpn_close_def prims calm_world_def
        new_events_def eval_nat_numeral)
  have "sd_vpnclient ?w" by simp
  from datalogger_fatal [OF run this] ev have "r = SysExit 1"
    by auto
  with ev run show ?thesis by simp
qed

lemma steady_ping: "L_ping \<in> S \<Longrightarrow> L_ping_raised \<in> S \<Longrightarrow> steady S (ping site k)"
  by (auto simp: steady_def ping_def log_def Let_def split: sum.splits)

lemma steady_pinger_loop:
  "L_ping \<in> S \<Longrightarrow> L_ping_raised \<in> S \<Longrightarrow> steady S (pinger_loop site k n good)"
  by (induction n arbitrary: good) (auto intro!: steady_ping)

lemma steady_pinger: "L_ping \<in> S \<Longrightarrow> L_ping_raised \<in> S \<Longrightarrow> steady S (pinger site k)"
  unfolding pinger_def by (intro steady_bind steady_return steady_pinger_loop)

lemma steady_sounder_loop: "L_bell \<in> S \<Longrightarrow> steady S (sounder_loop n)"
  by (induction n) (auto intro!: steady_emit steady_sleep)

lemma steady_sounder: "L_bell \<in> S \<Longrightarrow> steady S (sounder n q)"
  unfolding sounder_def by (intro steady_if steady_return steady_sounder_loop)

lemma steady_ping_targets:
  assumes "L_ping \<in> S" "L_ping_raised \<in> S" "L_bell \<in> S" "L_report Target_ping \<in> S"
  shows "steady S (ping_targets p tc targets acc)"
proof (induction targets arbitrary: acc)
  case Nil
  show ?case by auto
next
  case (Cons a targets)
  obtain target label where a: "a = (target, label)" by (cases a)
  obtain test_results tgood twarn tfail where acc: "acc = (test_results, tgood, twarn, tfail)"
    by (cases acc)
  show ?case
    unfolding a acc ping_targets.simps
    by (intro steady_bind steady_case_prod steady_if steady_return steady_date_and_tod
        steady_pinger steady_sounder steady_emit Cons.IH) (simp_all add: assms)
qed

lemma steady_test_vpn_ping:
  assumes "L_ping \<in> S" "L_ping_raised \<in> S" "L_bell \<in> S" "L_report VPN_ping \<in> S"
  shows "steady S (test_vpn_ping p tc)"
  unfolding test_vpn_ping_def
  by (intro steady_bind steady_case_prod steady_if steady_return steady_date_and_tod
      steady_pinger steady_sounder steady_emit) (simp_all add: assms)

lemma steady_test_vpn_open:
  assumes "L_session \<in> S" "L_open \<in> S" "L_bell \<in> S" "L_report VPN_open \<in> S"
  shows "steady S (test_vpn_open p tc r date tod results)"
  unfolding test_vpn_open_def
  by (intro steady_bind steady_case_prod steady_if steady_return steady_date_and_tod
      steady_vpn_open steady_sounder steady_emit) (simp_all add: assms)

lemma steady_test_targets:
  assumes "L_ping \<in> S" "L_ping_raised \<in> S" "L_bell \<in> S" "L_report Target_ping \<in> S"
  shows "steady S (test_targets p tc targets r results)"
  unfolding test_targets_def
  by (intro steady_if steady_return steady_ping_targets assms)

lemma steady_test_vpn_close:
  assumes "L_session \<in> S" "L_close \<in> S" "L_bell \<in> S" "L_report VPN_close \<in> S"
  shows "steady S (test_vpn_close p tc r results)"
  unfolding test_vpn_close_def
  by (intro steady_bind steady_case_prod steady_if steady_return steady_date_and_tod
      steady_vpn_close steady_sounder steady_emit) (simp_all add: assms)

lemma steady_cycle_tests: "steady test_layers (cycle_tests p targets tc)"
  unfolding cycle_tests_def
  by (intro steady_bind steady_case_prod steady_return steady_test_vpn_ping
      steady_test_vpn_open steady_test_targets steady_test_vpn_close)
    (simp_all add: test_layers_def)

lemma steady_write_entries: "L_file \<in> S \<Longrightarrow> steady S (write_entries d)"
proof (induction d)
  case Nil
  show ?case by auto
next
  case (Cons a d)
  obtain entry line where a: "a = (entry, line)" by (cases a)
  from Cons show ?case
    unfolding a write_entries.simps by (intro steady_bind steady_act) simp_all
qed

lemma steady_file_open: "L_file \<in> S \<Longrightarrow> steady S (file_open f)"
  by (auto simp: steady_def file_open_def act_def io_bind_def log_def Let_def
      split: option.splits)

lemma steady_write_attempt: "L_file \<in> S \<Longrightarrow> steady S (write_attempt f d)"
  unfolding write_attempt_def
  by (intro steady_bind steady_file_open steady_write_entries steady_act) simp_all

lemma steady_sd_vpnclient_close:
  "L_session \<in> S \<Longrightarrow> L_close \<in> S \<Longrightarrow> steady S sd_vpnclient_close"
  using steady_vpn_close [of S]
  by (auto simp: steady_def sd_vpnclient_close_def split: if_splits)

lemma steady_datalogger_loop: "steady datalog_layers (datalogger_loop f d m rv)"
proof (induction m)
  case 0
  show ?case by auto
next
  case (Suc n)
  let ?retry = "io_bind (if 0 < n then sleep RetryDelay else io_return ())
                 (\<lambda>_. datalogger_loop f d n rv)"
  let ?fatal = "io_bind (io_try_pass sd_vpnclient_close) (\<lambda>_. io_exit 1 :: outcome io)"
  have att: "steady datalog_layers (write_attempt f d)"
    by (rule steady_write_attempt) (simp add: datalog_layers_def)
  have st_retry: "steady datalog_layers ?retry"
    by (intro steady_bind steady_if steady_return steady_sleep Suc.IH)
      (simp add: datalog_layers_def)
  have st_fatal: "steady datalog_layers ?fatal"
    by (intro steady_bind steady_try_pass steady_exit steady_sd_vpnclient_close)
      (simp_all add: datalog_layers_def)
  show ?case
    unfolding steady_def
  proof (intro allI impI)
    fix w r w2 assume run: "datalogger_loop f d (Suc n) rv w = (r, w2)"
    obtain ra wa where a: "write_attempt f d w = (ra, wa)" by force
    note sa = steadyD [OF att a]
    from run a consider (ok) "ra = Ret ()" "r = Ret Good" "w2 = wa"
      | (retry) "ra = Raise PermissionError" "?retry wa = (r, w2)"
      | (fatal) e where "ra = Raise e" "?fatal wa = (r, w2)"
      | (out) c where "ra = SysExit c" "r = SysExit c" "w2 = wa"
      by (cases ra) (auto simp: io_return_def split: if_splits)
    then show "(vpn_proc w \<longrightarrow> vpn_proc w2) \<and> (sd_vpnclient w \<longrightarrow> sd_vpnclient w2) \<and>
        (\<exists>es. trace w2 = trace w @ es \<and> (\<forall>e \<in> set es. cls e \<in> datalog_layers))"
    proof cases
      case ok
      with sa show ?thesis by simp
    next
      case retry
      from sa steadyD [OF st_retry retry(2)] show ?thesis by auto
    next
      case fatal
      from sa steadyD [OF st_fatal fatal(2)] show ?thesis by auto
    next
      case out
      with sa show ?thesis by simp
    qed
  qed
qed

lemma steady_datalogger: "steady (insert L_datalogger datalog_layers) (datalogger f d)"
  unfolding datalogger_def
  by (intro steady_bind steady_emit steady_mono [OF steady_datalogger_loop]) auto

lemma steady_get_targets: "steady S (get_targets f)"
  by (auto simp: steady_def get_targets_def)

lemma steady_wait_next: "L_mark \<in> S \<Longrightarrow> steady S (wait_next p)"
  unfolding wait_next_def by (intro steady_bind steady_date_and_tod steady_sleep) simp

subsection \<open>A test cycle with the VPN site down\<close>

lemma sounder_3:
  "sounder 3 q w = (Ret (), w\<lparr>trace := trace w @ alarm q\<rparr>)"
  by (simp add: sounder_def alarm_def eval_nat_numeral io_bind_def emit_def sleep_def log_def
      io_return_def)

lemma pinger_gateway_fail:
  assumes "pings w = Inr False ## Inr False ## ps"
  shows "pinger site 2 w =
     (Ret Fail, w\<lparr>pings := ps, trace := trace w @ [Ping site 2 (Inr False), Ping site 2 (Inr False)]\<rparr>)"
  using assms
  by (simp add: pinger_def eval_nat_numeral io_bind_def ping_def log_def Let_def io_return_def)

lemma cycle_tests_gateway_fail:
  assumes "pings w = Inr False ## Inr False ## ps" and "shd (clock w) = (date, tod)"
  shows "cycle_tests p targets tc w =
     (Ret (gateway_fail_rows p tc date tod, Fail, Fail, 0, 0, 0),
      w\<lparr>clock := stl (clock w), pings := ps, trace := trace w @ gateway_fail_events p tc\<rparr>)"
proof -
  let ?w1 = "w\<lparr>clock := stl (clock w)\<rparr>"
  have p1: "pings ?w1 = Inr False ## Inr False ## ps" using assms(1) by simp
  have a: "test_vpn_ping p tc w =
      (Ret (Fail, date, tod, [(''VPN ping'', vpn_row p tc date tod VPN_ping Fail)]),
       w\<lparr>clock := stl (clock w), pings := ps,
          trace := trace w @ [Ping (p_vpnurlip p) 2 (Inr False), Ping (p_vpnurlip p) 2 (Inr False)]
             @ alarm (p_quiet p) @ [Report tc VPN_ping Fail (p_vpnname p)]\<rparr>)"
    using assms(2)
    by (simp add: test_vpn_ping_def io_bind_def date_and_tod_def pinger_gateway_fail [OF p1]
        sounder_3 emit_def log_def io_return_def)
  show ?thesis
    by (simp add: cycle_tests_def io_bind_def a test_vpn_open_def test_targets_def
        test_vpn_close_def sounder_3 emit_def log_def io_return_def gateway_fail_rows_def
        gateway_fail_events_def)
qed

lemma io_bind_Ret: "m w = (Ret x, w1) \<Longrightarrow> io_bind m f w = f x w1"
  by (simp add: io_bind_def)

lemma count_list_layer: "\<forall>e \<in> set es. cls e \<in> S \<Longrightarrow> cls x \<notin> S \<Longrightarrow> count_list es x = 0"
  by (induction es) auto

lemma logged_rows_append: "logged_rows (xs @ ys) = logged_rows xs @ logged_rows ys"
  by (induction xs rule: logged_rows.induct) simp_all

lemma logged_rows_layer: "\<forall>e \<in> set es. cls e \<noteq> L_datalogger \<Longrightarrow> logged_rows es = []"
  by (induction es rule: logged_rows.induct) simp_all

lemma gateway_fail_cycle_events:
  assumes "pings w = Inr False ## Inr False ## ps"
    and "get_targets_of (shd (targets_views w)) = Ret targets"
    and "shd (stl (clock w)) = (date, tod)"
  shows "\<exists>post. new_events w (snd (cycle p tc w)) =
            CycleStart tc # gateway_fail_events p tc
            @ Call_datalogger (gateway_fail_rows p tc date tod) # post
         \<and> (\<forall>e \<in> set post. cls e \<in> {L_file, L_close, L_session, L_mark})"
proof -
  let ?w1 = "w\<lparr>targets_views := stl (targets_views w), clock := stl (clock w),
      trace := trace w @ [CycleStart tc]\<rparr>"
  let ?w2 = "?w1\<lparr>clock := stl (clock ?w1), pings := ps,
      trace := trace ?w1 @ gateway_fail_events p tc\<rparr>"
  let ?rows = "gateway_fail_rows p tc date tod"
  have t: "cycle_tests p targets tc ?w1 = (Ret (?rows, Fail, Fail, 0, 0, 0), ?w2)"
    using cycle_tests_gateway_fail [of ?w1 ps date tod p targets tc] assms(1,3) by simp
  obtain rd wd where d: "datalogger (p_datalog p) ?rows ?w2 = (rd, wd)" by force
  let ?w3 = "log (Call_datalogger ?rows) ?w2"
  have dl: "datalogger_loop (p_datalog p) ?rows VPNMON_DATALOG_WRITE_MAX_RETRIES Fail ?w3
      = (rd, wd)"
    using d by (simp add: datalogger_def io_bind_def emit_def)
  from steadyD [OF steady_datalogger_loop dl] obtain es where
    es: "trace wd = trace ?w3 @ es" "\<forall>e \<in> set es. cls e \<in> datalog_layers"
    by blast
  have c: "cycle p tc w = io_bind (datalogger (p_datalog p) ?rows) (\<lambda>datalogger_result.
     io_bind date_and_tod (\<lambda>_.
     io_bind (emit (CycleEnd tc)) (\<lambda>_. io_return datalogger_result))) ?w2"
    using assms(2) t
    by (simp add: cycle_def io_bind_def get_targets_def date_and_tod_def emit_def log_def)
  obtain rc wc where rc: "cycle p tc w = (rc, wc)" by force
  have "\<exists>tl. trace wc = trace wd @ tl \<and> (\<forall>e \<in> set tl. cls e = L_mark)"
    using rc d unfolding c
    by (cases rd) (auto simp: io_bind_def date_and_tod_def emit_def log_def io_return_def)
  then obtain tl where tl: "trace wc = trace wd @ tl" "\<forall>e \<in> set tl. cls e = L_mark"
    by blast
  have "new_events w wc = CycleStart tc # gateway_fail_events p tc
            @ Call_datalogger ?rows # (es @ tl)"
    using tl(1) es(1) by (simp add: new_events_def log_def)
  moreover have "\<forall>e \<in> set (es @ tl). cls e \<in> {L_file, L_close, L_session, L_mark}"
    using es(2) tl(2) by (auto simp: datalog_layers_def)
  ultimately show ?thesis using rc by auto
qed


lemmas cycle_defs = cycle_def cycle_tests_def test_vpn_ping_def test_vpn_open_def
  test_targets_def test_vpn_close_def get_targets_def get_targets_of_def pinger_def
  sounder_def datalogger_def write_attempt_def file_open_def date_and_tod_def ping_def
  VPNMON_DATALOG_WRITE_MAX_RETRIES_def vpn_row_def

lemma gateway_down_cycle:
  "new_events gateway_down (snd (cycle sample_params 1 gateway_down)) =
     CycleStart 1 # gateway_fail_events sample_params 1
     @ [Call_datalogger (gateway_fail_rows sample_params 1 ''2022/01/01'' ''12:00:00''),
        FileOpen ''vpnmon_datalog.csv'' None,
        FileWrite (vpn_row sample_params 1 ''2022/01/01'' ''12:00:00'' VPN_ping Fail) None,
        FileWrite (vpn_row sample_params 1 ''2022/01/01'' ''12:00:00'' VPN_open Fail) None,
        FileClose None, CycleEnd 1]"
  by (simp add: cycle_defs prims gateway_down_def calm_world_def sample_params_def
      new_events_def eval_nat_numeral gateway_fail_events_def gateway_fail_rows_def alarm_def)

text \<open>
  C5, as amended. In a test cycle whose targets were loaded and whose two pings of the VPN
  site both fail: \<open>open\<close> is not called; no target is pinged and there is no record of a
  target or of a close; \<open>sounder\<close> runs twice with three bells each, once for the ping and
  once for the open that is reported as failed without having been tried (six bells, none
  when quiet); and \<open>datalogger\<close> is called once, with two records, both Fail: the one of
  the VPN ping and one of the VPN open.
\<close>

theorem gateway_fail_cycle:
  assumes "pings w = Inr False ## Inr False ## ps"
    and "get_targets_of (shd (targets_views w)) = Ret targets"
    and "shd (stl (clock w)) = (date, tod)"
  shows "(\<exists>post. new_events w (snd (cycle p tc w)) =
            CycleStart tc # gateway_fail_events p tc
            @ Call_datalogger (gateway_fail_rows p tc date tod) # post
         \<and> (\<forall>e \<in> set post. cls e \<in> {L_file, L_close, L_session, L_mark}))
    \<and> count_list (new_events w (snd (cycle p tc w))) Call_open = 0
    \<and> count_list (new_events w (snd (cycle p tc w))) Bell = (if p_quiet p then 0 else 6)
    \<and> logged_rows (new_events w (snd (cycle p tc w))) = gateway_fail_rows p tc date tod"
proof -
  from gateway_fail_cycle_events [OF assms, of p tc] obtain post where
    ev: "new_events w (snd (cycle p tc w)) =
            CycleStart tc # gateway_fail_events p tc
            @ Call_datalogger (gateway_fail_rows p tc date tod) # post"
    and post: "\<forall>e \<in> set post. cls e \<in> {L_file, L_close, L_session, L_mark}"
    by blast
  have "count_list post Call_open = 0"
    by (rule count_list_layer [OF post]) simp
  moreover have "count_list post Bell = 0"
    by (rule count_list_layer [OF post]) simp
  moreover have "logged_rows post = []"
    by (rule logged_rows_layer) (use post in auto)
  ultimately have "count_list (new_events w (snd (cycle p tc w))) Call_open = 0
    \<and> count_list (new_events w (snd (cycle p tc w))) Bell = (if p_quiet p then 0 else 6)
    \<and> logged_rows (new_events w (snd (cycle p tc w))) = gateway_fail_rows p tc date tod"
    unfolding ev by (simp add: logged_rows_append gateway_fail_events_def alarm_def)
  with ev post show ?thesis by blast
qed

theorem gateway_fail_cycle_witness:
  "count_list (new_events gateway_down (snd (cycle sample_params 1 gateway_down))) Call_open = 0
   \<and> count_list (new_events gateway_down (snd (cycle sample_params 1 gateway_down))) Bell = 6
   \<and> logged_rows (new_events gateway_down (snd (cycle sample_params 1 gateway_down)))
       = gateway_fail_rows sample_params 1 ''2022/01/01'' ''12:00:00''"
proof -
  have "pings gateway_down = Inr False ## Inr False ## sconst (Inr True)"
    and "get_targets_of (shd (targets_views gateway_down)) = Ret []"
    and "shd (stl (clock gateway_down)) = (''2022/01/01'', ''12:00:00'')"
    by (simp_all add: gateway_down_def calm_world_def get_targets_of_def)
  from gateway_fail_cycle [OF this, of sample_params 1] show ?thesis
    by (simp add: sample_params_def)
qed

text \<open>
  C5 as stated fails: with the VPN site down and sounds on, the cycle rings six bells, not
  one, and records two failures, the VPN ping and the VPN open, not one.
\<close>

theorem gateway_fail_alerts_and_records:
  "count_list (new_events gateway_down (snd (cycle sample_params 1 gateway_down))) Bell = 6
   \<and> logged_rows (new_events gateway_down (snd (cycle sample_params 1 gateway_down)))
       = [(''VPN ping'',
           Row 1 ''2022/01/01'' ''12:00:00'' VPN_ping Fail ''10.0.0.1'' ''VPN Gateway''),
          (''VPN open'',
           Row 1 ''2022/01/01'' ''12:00:00'' VPN_open Fail ''10.0.0.1'' ''VPN Gateway'')]"
  unfolding gateway_down_cycle
  by (simp add: gateway_fail_events_def gateway_fail_rows_def alarm_def sample_params_def
      vpn_row_def)

subsection \<open>Open and close inside a test cycle\<close>

lemma datalogger_events:
  assumes "datalogger f d w = (r, w1)"
  shows "\<exists>es. trace w1 = trace w @ Call_datalogger d # es \<and> (\<forall>e \<in> set es. cls e \<in> datalog_layers)"
proof -
  have "datalogger_loop f d VPNMON_DATALOG_WRITE_MAX_RETRIES Fail (log (Call_datalogger d) w)
      = (r, w1)"
    using assms by (simp add: datalogger_def io_bind_def emit_def)
  from steadyD [OF steady_datalogger_loop this] show ?thesis
    by (auto simp: log_def)
qed

lemma vpn_open_events:
  assumes "vpn_open site user pass w = (r, w1)"
  shows "\<exists>es. trace w1 = trace w @ Call_open # es \<and> (\<forall>e \<in> set es. cls e = L_session)
     \<and> (r = Ret Good \<longrightarrow> vpn_proc w1)"
proof -
  let ?tail = "io_bind open_start_cli (\<lambda>_. io_bind open_disconnect (\<lambda>_.
     then_step (open_connect site)
       (then_step (open_credentials user pass)
         (then_step (open_banner site) (io_return Good)))))"
  let ?body = "io_bind open_kill_others (\<lambda>_. io_bind open_spawn (\<lambda>_. ?tail))"
  have st_tail: "steady {L_session} ?tail"
    unfolding open_start_cli_def open_disconnect_def open_connect_def open_credentials_def
      open_banner_def exit_cleanup_def
    by (intro steady_bind steady_if steady_then_step steady_try steady_return
        steady_exit steady_print_before steady_teardown steady_fail_cleanup steady_session)
      simp_all
  have st_kill: "steady {L_session} open_kill_others"
    unfolding open_kill_others_def
    by (intro steady_bind steady_try steady_exit steady_session) simp_all
  have st_spawn: "steady {L_session} open_spawn"
    unfolding open_spawn_def
    by (intro steady_bind steady_try steady_exit steady_return steady_print_before
        steady_session) simp_all
  have st_body: "steady {L_session} ?body"
    by (intro steady_bind st_kill st_spawn st_tail)
  have run: "?body (log Call_open w) = (r, w1)"
    using assms by (simp add: vpn_open_def io_bind_def emit_def)
  have bound: "vpn_proc w1" if "r = Ret Good"
  proof -
    from io_bind_cases [OF run] that obtain wa where
      a: "io_bind open_spawn (\<lambda>_. ?tail) wa = (r, w1)"
      by auto
    from io_bind_cases [OF a] that obtain wb where
      b: "open_spawn wa = (Ret (), wb)" "?tail wb = (r, w1)"
      by auto
    from open_spawn_cases [OF b(1)] have "vpn_proc wb" by auto
    with steadyD [OF st_tail b(2)] show ?thesis by simp
  qed
  from steadyD [OF st_body run] bound show ?thesis
    by (auto simp: log_def)
qed

lemma close_disconnect_returns:
  assumes "close_disconnect w = (r, w1)" and "vpn_proc w"
  shows "vpn_proc w1 \<and> (r = Ret None \<or> r = Ret (Some Fail))"
  using assms unfolding close_disconnect_def
  by (auto simp: prims split: option.splits sum.splits if_splits)

lemma close_exit_returns:
  assumes "close_exit w = (r, w1)" and "vpn_proc w"
  shows "vpn_proc w1 \<and> (r = Ret None \<or> r = Ret (Some Fail))"
  using assms unfolding close_exit_def
  by (auto simp: prims split: option.splits sum.splits if_splits)

lemma close_terminate_returns:
  assumes "close_terminate w = (r, w1)" and "vpn_proc w"
  shows "vpn_proc w1 \<and> (r = Ret None \<or> r = Ret (Some Fail))"
  using assms unfolding close_terminate_def
  by (auto simp: prims split: option.splits sum.splits if_splits)

lemma vpn_close_returns:
  assumes "vpn_close w = (r, w1)" and "vpn_proc w"
  shows "r = Ret Good \<or> r = Ret Fail"
proof -
  let ?steps = "then_step close_disconnect
              (then_step close_exit (then_step close_terminate (io_return Good)))"
  let ?w0 = "log Call_close w"
  obtain b wa where al: "isalive ?w0 = (Ret b, wa)" "vpn_proc wa"
    using assms(2) by (auto simp: isalive_def on_vpn_proc_def log_def Let_def)
  have run: "(if \<not> b then io_return Good else ?steps) wa = (r, w1)"
    using assms(1) al(1) by (simp add: vpn_close_def io_bind_def emit_def)
  show ?thesis
  proof (cases b)
    case False
    with run show ?thesis by (simp add: io_return_def)
  next
    case True
    with run have s: "?steps wa = (r, w1)" by simp
    from then_step_cases [OF s] close_disconnect_returns [OF _ al(2)]
    consider "r = Ret Fail"
      | wb where "vpn_proc wb"
          "then_step close_exit (then_step close_terminate (io_return Good)) wb = (r, w1)"
      by fastforce
    then show ?thesis
    proof cases
      case 1
      then show ?thesis by simp
    next
      case 2
      from then_step_cases [OF 2(2)] close_exit_returns [OF _ 2(1)]
      consider "r = Ret Fail"
        | wc where "vpn_proc wc" "then_step close_terminate (io_return Good) wc = (r, w1)"
        by fastforce
      then show ?thesis
      proof cases
        case 1
        then show ?thesis by simp
      next
        case 2
        from then_step_cases [OF 2(2)] close_terminate_returns [OF _ 2(1)]
        show ?thesis by (fastforce simp: io_return_def)
      qed
    qed
  qed
qed

lemma pings_throughD:
  assumes "pings_through m" and "m w = (r, w1)"
  shows "\<exists>es. trace w1 = trace w @ es
           \<and> ((\<exists>x. r = Ret x) \<or> (\<exists>e \<in> set es. cls e = L_ping_raised))"
  using assms unfolding pings_through_def by blast

lemma pings_through_return: "pings_through (io_return x)"
  by (simp add: pings_through_def io_return_def)

lemma pings_through_emit: "pings_through (emit e)"
  by (simp add: pings_through_def emit_def log_def)

lemma pings_through_date_and_tod: "pings_through date_and_tod"
  by (simp add: pings_through_def date_and_tod_def)

lemma pings_through_ping: "pings_through (ping site k)"
  by (auto simp: pings_through_def ping_def log_def Let_def split: sum.splits)

lemma pings_through_bind:
  assumes "pings_through m" and "\<And>x. pings_through (f x)"
  shows "pings_through (io_bind m f)"
  unfolding pings_through_def
proof (intro allI impI)
  fix w r w2 assume run: "io_bind m f w = (r, w2)"
  from io_bind_cases [OF run]
  consider (go) x w1 where "m w = (Ret x, w1)" "f x w1 = (r, w2)"
    | (stop) rm where "m w = (rm, w2)" "\<nexists>x. rm = Ret x"
    by auto
  then show "\<exists>es. trace w2 = trace w @ es
           \<and> ((\<exists>x. r = Ret x) \<or> (\<exists>e \<in> set es. cls e = L_ping_raised))"
  proof cases
    case go
    from pings_throughD [OF assms(1) go(1)] pings_throughD [OF assms(2) go(2)] show ?thesis
      by auto
  next
    case stop
    from pings_throughD [OF assms(1) stop(1)] stop(2) show ?thesis by auto
  qed
qed

lemma pings_through_if:
  "pings_through a \<Longrightarrow> pings_through b \<Longrightarrow> pings_through (if c then a else b)"
  by simp

lemma pings_through_case_prod:
  "(\<And>a b. pings_through (f a b)) \<Longrightarrow> pings_through (case x of (a, b) \<Rightarrow> f a b)"
  by (cases x) simp

lemma pings_through_pinger_loop: "pings_through (pinger_loop site k n good)"
  by (induction n arbitrary: good)
    (auto intro!: pings_through_bind pings_through_ping pings_through_return)

lemma pings_through_pinger: "pings_through (pinger site k)"
  unfolding pinger_def
  by (intro pings_through_bind pings_through_return pings_through_pinger_loop)

lemma pings_through_sounder_loop: "pings_through (sounder_loop n)"
proof (induction n)
  case 0
  show ?case by (simp add: pings_through_return)
next
  case (Suc n)
  have "pings_through (sleep BellDelay)"
    by (simp add: pings_through_def sleep_def log_def)
  with Suc show ?case
    by (auto intro!: pings_through_bind pings_through_emit)
qed

lemma pings_through_sounder: "pings_through (sounder n q)"
  unfolding sounder_def
  by (intro pings_through_if pings_through_return pings_through_sounder_loop)

lemma pings_through_ping_targets: "pings_through (ping_targets p tc targets acc)"
proof (induction targets arbitrary: acc)
  case Nil
  show ?case by (simp add: pings_through_return)
next
  case (Cons a targets)
  obtain target label where a: "a = (target, label)" by (cases a)
  obtain test_results tgood twarn tfail where acc: "acc = (test_results, tgood, twarn, tfail)"
    by (cases acc)
  show ?case
    unfolding a acc ping_targets.simps
    by (intro pings_through_bind pings_through_case_prod pings_through_if pings_through_return
        pings_through_date_and_tod pings_through_pinger pings_through_sounder
        pings_through_emit Cons.IH)
qed

lemma pings_through_test_targets: "pings_through (test_targets p tc targets r results)"
  unfolding test_targets_def
  by (intro pings_through_if pings_through_return pings_through_ping_targets)

lemma report_after:
  "io_bind (if v \<noteq> Good then sounder 3 q else io_return ())
     (\<lambda>_. io_bind (emit e) (\<lambda>_. io_return x)) w =
   (Ret x, w\<lparr>trace := trace w @ (if v \<noteq> Good then alarm q else []) @ [e]\<rparr>)"
  by (simp add: io_bind_def sounder_3 emit_def log_def io_return_def)

lemma test_vpn_open_cases:
  assumes "test_vpn_open p tc rp date tod results w = (r, w1)"
  shows "\<exists>es. trace w1 = trace w @ es
     \<and> (\<forall>e \<in> set es. cls e \<in> {L_session, L_open, L_bell, L_report VPN_open})
     \<and> (case r of
           Ret (ro, res) \<Rightarrow>
             (Report tc VPN_open Good (p_vpnname p) \<in> set es \<longleftrightarrow> ro = Good)
             \<and> (ro = Good \<longrightarrow> vpn_proc w1 \<and> count_list es Call_open = 1)
         | _ \<Rightarrow> Report tc VPN_open Good (p_vpnname p) \<notin> set es)"
proof -
  let ?opening = "if rp = Good
        then io_bind date_and_tod (\<lambda>(date1, tod1).
             io_bind (vpn_open (p_vpnurlip p) (p_username p) (p_password p)) (\<lambda>r.
               io_return (r, date1, tod1)))
        else io_return (Fail, date, tod)"
  let ?after = "\<lambda>(vpn_open_result, date1, tod1).
     io_bind (if vpn_open_result \<noteq> Good then sounder 3 (p_quiet p) else io_return ()) (\<lambda>_.
     io_bind (emit (Report tc VPN_open vpn_open_result (p_vpnname p))) (\<lambda>_.
       io_return (vpn_open_result,
         dict_set ''VPN open'' (vpn_row p tc date1 tod1 VPN_open vpn_open_result) results)))"
  have run: "io_bind ?opening ?after w = (r, w1)"
    using assms by (simp add: test_vpn_open_def)
  obtain ro wa where op: "?opening w = (ro, wa)" by force
  have op_ev: "\<exists>es. trace wa = trace w @ es \<and> (\<forall>e \<in> set es. cls e \<in> {L_session, L_open})
      \<and> (\<forall>x. ro = Ret x \<and> fst x = Good \<longrightarrow> vpn_proc wa \<and> count_list es Call_open = 1)"
  proof (cases "rp = Good")
    case False
    with op show ?thesis by (auto simp: io_return_def)
  next
    case True
    let ?wc = "w\<lparr>clock := stl (clock w)\<rparr>"
    obtain r2 w2 where vo: "vpn_open (p_vpnurlip p) (p_username p) (p_password p) ?wc = (r2, w2)"
      by force
    from vpn_open_events [OF vo] obtain es where
      es: "trace w2 = trace w @ Call_open # es" "\<forall>e \<in> set es. cls e = L_session"
        "r2 = Ret Good \<longrightarrow> vpn_proc w2"
      by auto
    have c: "count_list es Call_open = 0"
      by (rule count_list_layer [where S = "{L_session}"]) (use es(2) in auto)
    have "wa = w2" "\<forall>x. ro = Ret x \<and> fst x = Good \<longrightarrow> r2 = Ret Good"
      using op True vo
      by (auto simp: io_bind_def date_and_tod_def io_return_def split: prod.splits res.splits)
    with es c show ?thesis by auto
  qed
  then obtain es where es: "trace wa = trace w @ es"
    "\<forall>e \<in> set es. cls e \<in> {L_session, L_open}"
    "\<forall>x. ro = Ret x \<and> fst x = Good \<longrightarrow> vpn_proc wa \<and> count_list es Call_open = 1"
    by blast
  have no_rep: "Report tc VPN_open Good (p_vpnname p) \<notin> set es"
    using es(2) by force
  show ?thesis
  proof (cases ro)
    case (Ret x)
    obtain vor d1 t1 where x: "x = (vor, d1, t1)" by (cases x)
    let ?res = "dict_set ''VPN open'' (vpn_row p tc d1 t1 VPN_open vor) results"
    have "r = Ret (vor, ?res)"
      and w1: "trace w1 = trace wa
          @ (if vor \<noteq> Good then alarm (p_quiet p) else [])
          @ [Report tc VPN_open vor (p_vpnname p)]" "vpn_proc w1 = vpn_proc wa"
      using run op Ret x report_after [of vor "p_quiet p" "Report tc VPN_open vor (p_vpnname p)"
          "(vor, ?res)" wa]
      by (auto simp: io_bind_Ret)
    moreover have "count_list (alarm (p_quiet p)) Call_open = 0"
      "\<forall>e \<in> set (alarm (p_quiet p)). cls e = L_bell"
      "Report tc VPN_open Good (p_vpnname p) \<notin> set (alarm (p_quiet p))"
      by (auto simp: alarm_def)
    ultimately show ?thesis
      using es Ret x no_rep by (cases "vor = Good") auto
  next
    case (Raise e)
    with run op have "r = Raise e" "w1 = wa" by (simp_all add: io_bind_def)
    with es no_rep show ?thesis by auto
  next
    case (SysExit n)
    with run op have "r = SysExit n" "w1 = wa" by (simp_all add: io_bind_def)
    with es no_rep show ?thesis by auto
  qed
qed

lemma test_vpn_close_cases:
  assumes "test_vpn_close p tc ro results w = (r, w1)" and "ro = Good \<longrightarrow> vpn_proc w"
  shows "\<exists>es x. trace w1 = trace w @ es \<and> r = Ret x
     \<and> (\<forall>e \<in> set es. cls e \<in> {L_session, L_close, L_bell, L_report VPN_close})
     \<and> count_list es Call_close = (if ro = Good then 1 else 0)"
proof (cases "ro = Good")
  case False
  with assms(1) show ?thesis by (auto simp: test_vpn_close_def io_return_def)
next
  case True
  let ?wc = "w\<lparr>clock := stl (clock w)\<rparr>"
  obtain rc w2 where vc: "vpn_close ?wc = (rc, w2)" by force
  have "vpn_proc ?wc" using assms(2) True by simp
  from vpn_close_returns [OF vc this] obtain vcr where rc: "rc = Ret vcr" by auto
  from vpn_close_events [OF vc] obtain post where
    post: "trace w2 = trace w @ Call_close # post" "\<forall>y \<in> set post. cls y = L_session"
    by auto
  have c: "count_list post Call_close = 0"
    by (rule count_list_layer [where S = "{L_session}"]) (use post(2) in auto)
  have "\<exists>x. r = Ret x"
    and w1: "trace w1 = trace w2
        @ (if vcr \<noteq> Good then alarm (p_quiet p) else [])
        @ [Report tc VPN_close vcr (p_vpnname p)]"
    using assms(1) True vc rc
      report_after [of vcr "p_quiet p" "Report tc VPN_close vcr (p_vpnname p)"
        "dict_set ''VPN close''
           (vpn_row p tc (fst (shd (clock w))) (snd (shd (clock w))) VPN_close vcr) results" w2]
    by (auto simp: test_vpn_close_def date_and_tod_def io_bind_Ret split_beta)
  moreover have "count_list (alarm (p_quiet p)) Call_close = 0"
    "\<forall>e \<in> set (alarm (p_quiet p)). cls e = L_bell"
    by (auto simp: alarm_def)
  ultimately show ?thesis
    using post c True by (cases "vcr = Good") auto
qed


lemma count_list_append: "count_list (xs @ ys) x = count_list xs x + count_list ys x"
  by (induction xs) auto

lemma cycle_tests_pairing:
  assumes "cycle_tests p targets tc w = (r, w1)"
  shows "\<exists>es. trace w1 = trace w @ es \<and> (\<forall>e \<in> set es. cls e \<in> test_layers)
     \<and> (Report tc VPN_open Good (p_vpnname p) \<in> set es \<and> (\<forall>e \<in> set es. cls e \<noteq> L_ping_raised)
        \<longrightarrow> (\<exists>x. r = Ret x) \<and> count_list es Call_close = 1 \<and> count_list es Call_open = 1)"
proof -
  let ?G = "Report tc VPN_open Good (p_vpnname p)"
  let ?S1 = "{L_ping, L_ping_raised, L_bell, L_report VPN_ping}"
  let ?S3 = "{L_ping, L_ping_raised, L_bell, L_report Target_ping}"
  from steadyD [OF steady_cycle_tests assms] obtain es where
    es: "trace w1 = trace w @ es" "\<forall>e \<in> set es. cls e \<in> test_layers"
    by blast
  have "(\<exists>x. r = Ret x) \<and> count_list es Call_close = 1 \<and> count_list es Call_open = 1"
    if g: "?G \<in> set es" and np: "\<forall>e \<in> set es. cls e \<noteq> L_ping_raised"
  proof -
    obtain r1 wa where t1: "test_vpn_ping p tc w = (r1, wa)" by force
    from steadyD [OF steady_test_vpn_ping [where S = ?S1] t1] obtain es1 where
      es1: "trace wa = trace w @ es1" "\<forall>e \<in> set es1. cls e \<in> ?S1"
      by auto
    have g1: "?G \<notin> set es1" using es1(2) by force
    have c1: "count_list es1 Call_close = 0" "count_list es1 Call_open = 0"
      by (rule count_list_layer [OF es1(2)], simp)+
    show ?thesis
    proof (cases r1)
      case (Ret x1)
      obtain rp date tod res1 where x1: "x1 = (rp, date, tod, res1)" by (cases x1)
      obtain r2 wb where t2: "test_vpn_open p tc rp date tod res1 wa = (r2, wb)" by force
      from test_vpn_open_cases [OF t2] obtain es2 where
        es2: "trace wb = trace wa @ es2"
          "\<forall>e \<in> set es2. cls e \<in> {L_session, L_open, L_bell, L_report VPN_open}"
          "case r2 of
             Ret (ro, res) \<Rightarrow> (?G \<in> set es2 \<longleftrightarrow> ro = Good)
               \<and> (ro = Good \<longrightarrow> vpn_proc wb \<and> count_list es2 Call_open = 1)
           | _ \<Rightarrow> ?G \<notin> set es2"
        by blast
      have c2: "count_list es2 Call_close = 0"
        by (rule count_list_layer [OF es2(2)]) simp
      show ?thesis
      proof (cases r2)
        case r2: (Ret x2)
        obtain ro res2 where x2: "x2 = (ro, res2)" by (cases x2)
        from es2(3) r2 x2 have o: "?G \<in> set es2 \<longleftrightarrow> ro = Good"
          "ro = Good \<longrightarrow> vpn_proc wb \<and> count_list es2 Call_open = 1"
          by auto
        obtain r3 wc where t3: "test_targets p tc targets ro res2 wb = (r3, wc)" by force
        from steadyD [OF steady_test_targets [where S = ?S3] t3] obtain es3 where
          es3: "trace wc = trace wb @ es3" "\<forall>e \<in> set es3. cls e \<in> ?S3"
            "vpn_proc wb \<longrightarrow> vpn_proc wc"
          by auto
        have g3: "?G \<notin> set es3" using es3(2) by force
        have c3: "count_list es3 Call_close = 0" "count_list es3 Call_open = 0"
          by (rule count_list_layer [OF es3(2)], simp)+
        from pings_throughD [OF pings_through_test_targets t3] es3(1)
        have pt: "(\<exists>x. r3 = Ret x) \<or> (\<exists>e \<in> set es3. cls e = L_ping_raised)"
          by auto
        show ?thesis
        proof (cases r3)
          case r3: (Ret x3)
          obtain res3 tgood twarn tfail where x3: "x3 = (res3, tgood, twarn, tfail)"
            by (cases x3)
          obtain r4 wd where t4: "test_vpn_close p tc ro res3 wc = (r4, wd)" by force
          have "ro = Good \<longrightarrow> vpn_proc wc" using o(2) es3(3) by simp
          from test_vpn_close_cases [OF t4 this] obtain es4 x4 where
            es4: "trace wd = trace wc @ es4" "r4 = Ret x4"
              "\<forall>e \<in> set es4. cls e \<in> {L_session, L_close, L_bell, L_report VPN_close}"
              "count_list es4 Call_close = (if ro = Good then 1 else 0)"
            by blast
          have g4: "?G \<notin> set es4" using es4(3) by force
          have c4: "count_list es4 Call_open = 0"
            by (rule count_list_layer [OF es4(3)]) simp
          have fin: "\<exists>x. r = Ret x" "w1 = wd"
            using assms t1 Ret x1 t2 r2 x2 t3 r3 x3 t4 es4(2)
            by (auto simp: cycle_tests_def io_bind_def io_return_def)
          then have "es = es1 @ es2 @ es3 @ es4"
            using es(1) es1(1) es2(1) es3(1) es4(1) by simp
          with g g1 g3 g4 o c1 c2 c3 c4 es4(4) fin(1) show ?thesis
            by (auto simp: count_list_append)
        next
          case (Raise e)
          have "w1 = wc"
            using assms t1 Ret x1 t2 r2 x2 t3 Raise by (simp add: cycle_tests_def io_bind_def)
          then have "es = es1 @ es2 @ es3"
            using es(1) es1(1) es2(1) es3(1) by simp
          with pt Raise np show ?thesis by auto
        next
          case (SysExit n)
          have "w1 = wc"
            using assms t1 Ret x1 t2 r2 x2 t3 SysExit by (simp add: cycle_tests_def io_bind_def)
          then have "es = es1 @ es2 @ es3"
            using es(1) es1(1) es2(1) es3(1) by simp
          with pt SysExit np show ?thesis by auto
        qed
      next
        case (Raise e)
        have "w1 = wb"
          using assms t1 Ret x1 t2 Raise by (simp add: cycle_tests_def io_bind_def)
        then have "es = es1 @ es2" using es(1) es1(1) es2(1) by simp
        with g g1 es2(3) Raise show ?thesis by auto
      next
        case (SysExit n)
        have "w1 = wb"
          using assms t1 Ret x1 t2 SysExit by (simp add: cycle_tests_def io_bind_def)
        then have "es = es1 @ es2" using es(1) es1(1) es2(1) by simp
        with g g1 es2(3) SysExit show ?thesis by auto
      qed
    next
      case (Raise e)
      have "w1 = wa" using assms t1 Raise by (simp add: cycle_tests_def io_bind_def)
      then have "es = es1" using es(1) es1(1) by simp
      with g g1 show ?thesis by simp
    next
      case (SysExit n)
      have "w1 = wa" using assms t1 SysExit by (simp add: cycle_tests_def io_bind_def)
      then have "es = es1" using es(1) es1(1) by simp
      with g g1 show ?thesis by simp
    qed
  qed
  with es show ?thesis by blast
qed

subsection \<open>Open and close are paired\<close>

text \<open>
  Where the pairing holds: in every test cycle in which \<open>open\<close> returned Good (the console
  reports the VPN open as Good) and every ping returned, whatever the outcomes of the
  target probes, the history of the cycle reaches the call of \<open>datalogger\<close>, and before
  that call there is exactly one call of \<open>close\<close> (and exactly one of \<open>open\<close>).
\<close>

lemma close_paired_with_open:
  assumes "cycle p tc w = (r, w1)"
    and "Report tc VPN_open Good (p_vpnname p) \<in> set (new_events w w1)"
    and "\<forall>e \<in> set (new_events w w1). cls e \<noteq> L_ping_raised"
  shows "\<exists>pre d post. new_events w w1 = pre @ Call_datalogger d # post
     \<and> count_list pre Call_close = 1 \<and> count_list pre Call_open = 1
     \<and> (\<forall>e \<in> set pre. cls e \<noteq> L_datalogger)"
proof -
  let ?G = "Report tc VPN_open Good (p_vpnname p)"
  let ?wg = "w\<lparr>targets_views := stl (targets_views w)\<rparr>"
  let ?ws = "?wg\<lparr>clock := stl (clock ?wg), trace := trace w @ [CycleStart tc]\<rparr>"
  show ?thesis
  proof (cases "get_targets_of (shd (targets_views w))")
    case (Ret targets)
    obtain r2 wt where t: "cycle_tests p targets tc ?ws = (r2, wt)" by force
    from cycle_tests_pairing [OF t] obtain es where
      es: "trace wt = trace w @ CycleStart tc # es" "\<forall>e \<in> set es. cls e \<in> test_layers"
        "?G \<in> set es \<and> (\<forall>e \<in> set es. cls e \<noteq> L_ping_raised)
          \<longrightarrow> (\<exists>x. r2 = Ret x) \<and> count_list es Call_close = 1 \<and> count_list es Call_open = 1"
      by auto
    have c: "cycle p tc w = io_bind (cycle_tests p targets tc)
       (\<lambda>(test_results, summary).
         io_bind (datalogger (p_datalog p) test_results) (\<lambda>datalogger_result.
         io_bind date_and_tod (\<lambda>_.
         io_bind (emit (CycleEnd tc)) (\<lambda>_. io_return datalogger_result)))) ?ws"
      using Ret
      by (simp add: cycle_def io_bind_def get_targets_def date_and_tod_def emit_def log_def)
    show ?thesis
    proof (cases r2)
      case r2: (Ret x)
      obtain rows summary where x: "x = (rows, summary)" by (cases x)
      obtain rd wd where d: "datalogger (p_datalog p) rows wt = (rd, wd)" by force
      from datalogger_events [OF d] obtain esd where
        esd: "trace wd = trace wt @ Call_datalogger rows # esd"
          "\<forall>e \<in> set esd. cls e \<in> datalog_layers"
        by blast
      have "\<exists>tl. trace w1 = trace wd @ tl \<and> (\<forall>e \<in> set tl. cls e = L_mark)"
        using assms(1) t r2 x d unfolding c
        by (cases rd) (auto simp: io_bind_def date_and_tod_def emit_def log_def io_return_def)
      then obtain tl where tl: "trace w1 = trace wd @ tl" "\<forall>e \<in> set tl. cls e = L_mark"
        by blast
      have ne: "new_events w w1 = (CycleStart tc # es) @ Call_datalogger rows # (esd @ tl)"
        using tl(1) esd(1) es(1) by (simp add: new_events_def)
      have "?G \<notin> set esd" "?G \<notin> set tl"
        using esd(2) tl(2) by (force simp: datalog_layers_def)+
      with assms(2) have g: "?G \<in> set es" unfolding ne by auto
      have np: "\<forall>e \<in> set es. cls e \<noteq> L_ping_raised"
        using assms(3) unfolding ne by auto
      from es(3) g np have cnt: "count_list es Call_close = 1" "count_list es Call_open = 1"
        by auto
      have "count_list (CycleStart tc # es) Call_close = 1"
        "count_list (CycleStart tc # es) Call_open = 1"
        "\<forall>e \<in> set (CycleStart tc # es). cls e \<noteq> L_datalogger"
        using cnt es(2) by (auto simp: test_layers_def)
      with ne show ?thesis by blast
    next
      case (Raise e)
      have "w1 = wt" using assms(1) t Raise unfolding c by (simp add: io_bind_def)
      then have ne: "new_events w w1 = CycleStart tc # es"
        using es(1) by (simp add: new_events_def)
      from es(3) assms(2,3) Raise show ?thesis unfolding ne by auto
    next
      case (SysExit n)
      have "w1 = wt" using assms(1) t SysExit unfolding c by (simp add: io_bind_def)
      then have ne: "new_events w w1 = CycleStart tc # es"
        using es(1) by (simp add: new_events_def)
      from es(3) assms(2,3) SysExit show ?thesis unfolding ne by auto
    qed
  next
    case (Raise e)
    then have "w1 = ?wg" using assms(1) by (simp add: cycle_def io_bind_def get_targets_def)
    then have "new_events w w1 = []" by (simp add: new_events_def)
    with assms(2) show ?thesis by simp
  next
    case (SysExit n)
    then have "w1 = ?wg" using assms(1) by (simp add: cycle_def io_bind_def get_targets_def)
    then have "new_events w w1 = []" by (simp add: new_events_def)
    with assms(2) show ?thesis by simp
  qed
qed

text \<open>A whole test cycle in which everything answers: four records, each Good.\<close>

lemma vpn_up_cycle:
  "cycle sample_params 1 vpn_up =
     (Ret Good, snd (cycle sample_params 1 vpn_up))
   \<and> new_events vpn_up (snd (cycle sample_params 1 vpn_up)) =
     [CycleStart 1, Ping ''10.0.0.1'' 2 (Inr True), Ping ''10.0.0.1'' 2 (Inr True),
      Report 1 VPN_ping Good ''VPN Gateway'', Call_open]
     @ startup_script @ handshake_script ''10.0.0.1'' ''user'' ''secret''
     @ [Report 1 VPN_open Good ''VPN Gateway'',
        Ping ''10.0.0.2'' 2 (Inr True), Ping ''10.0.0.2'' 2 (Inr True),
        Report 1 Target_ping Good ''host-a'',
        Call_close, IsAlive True,
        Sleep CmdDelay, SendLine ''disconnect'' None, Expect [Str ''VPN>''] (Inr 0),
        Sleep CmdDelay, SendLine ''exit'' None, Expect [Str ''>''] (Inr 0),
        Terminate None, HostRun taskkill_vpncli None,
        Report 1 VPN_close Good ''VPN Gateway'',
        Call_datalogger
          [(''VPN ping'', Row 1 ''2022/01/01'' ''12:00:00'' VPN_ping Good ''10.0.0.1'' ''VPN Gateway''),
           (''VPN open'', Row 1 ''2022/01/01'' ''12:00:00'' VPN_open Good ''10.0.0.1'' ''VPN Gateway''),
           (''10.0.0.2'', Row 1 ''2022/01/01'' ''12:00:00'' Target_ping Good ''10.0.0.2'' ''host-a''),
           (''VPN close'', Row 1 ''2022/01/01'' ''12:00:00'' VPN_close Good ''10.0.0.1'' ''VPN Gateway'')],
        FileOpen ''vpnmon_datalog.csv'' None,
        FileWrite (Row 1 ''2022/01/01'' ''12:00:00'' VPN_ping Good ''10.0.0.1'' ''VPN Gateway'') None,
        FileWrite (Row 1 ''2022/01/01'' ''12:00:00'' VPN_open Good ''10.0.0.1'' ''VPN Gateway'') None,
        FileWrite (Row 1 ''2022/01/01'' ''12:00:00'' Target_ping Good ''10.0.0.2'' ''host-a'') None,
        FileWrite (Row 1 ''2022/01/01'' ''12:00:00'' VPN_close Good ''10.0.0.1'' ''VPN Gateway'') None,
        FileClose None, CycleEnd 1]"
  by (simp add: cycle_defs open_defs script_defs prims vpn_close_def close_disconnect_def
      close_exit_def close_terminate_def strip_newlines_def
      vpn_up_def calm_world_def sample_params_def new_events_def eval_nat_numeral)


lemma close_paired_with_open_witness:
  "\<exists>pre d post. new_events vpn_up (snd (cycle sample_params 1 vpn_up))
       = pre @ Call_datalogger d # post
     \<and> count_list pre Call_close = 1 \<and> count_list pre Call_open = 1
     \<and> (\<forall>e \<in> set pre. cls e \<noteq> L_datalogger)"
proof -
  have run: "cycle sample_params 1 vpn_up = (Ret Good, snd (cycle sample_params 1 vpn_up))"
    using vpn_up_cycle by simp
  have g: "Report 1 VPN_open Good (p_vpnname sample_params)
      \<in> set (new_events vpn_up (snd (cycle sample_params 1 vpn_up)))"
    using vpn_up_cycle by (simp add: sample_params_def)
  have np: "\<forall>e \<in> set (new_events vpn_up (snd (cycle sample_params 1 vpn_up))).
      cls e \<noteq> L_ping_raised"
    using vpn_up_cycle by (simp add: script_defs)
  from close_paired_with_open [OF run g np] show ?thesis .
qed

text \<open>
  C1 at the input where the code departs from it: the ping of a target raises after \<open>open\<close>
  returned Good. Nothing in \<open>main\<close> catches the exception, which leaves the cycle and the
  program at once: \<open>close\<close> is never called, so the VPN connection is left open, and
  nothing is written to the datalog. The module of the VPN client asks its callers to call
  \<open>close\<close> after every \<open>open\<close>, and the other ways out of the program
  (\<open>datalogger\<close> on a fatal error, the handler of Control-C) do call it first.
\<close>

theorem target_ping_raises_no_close:
  "fst (cycle sample_params 1 target_raises) = Raise OtherError
   \<and> new_events target_raises (snd (cycle sample_params 1 target_raises)) =
     [CycleStart 1, Ping ''10.0.0.1'' 2 (Inr True), Ping ''10.0.0.1'' 2 (Inr True),
      Report 1 VPN_ping Good ''VPN Gateway'', Call_open]
     @ startup_script @ handshake_script ''10.0.0.1'' ''user'' ''secret''
     @ [Report 1 VPN_open Good ''VPN Gateway'', Ping ''10.0.0.2'' 2 (Inl OtherError)]"
  by (simp add: cycle_defs open_defs script_defs prims strip_newlines_def
      target_raises_def vpn_up_def calm_world_def sample_params_def new_events_def
      eval_nat_numeral)

lemma loop_marks_append: "loop_marks (xs @ ys) = loop_marks xs @ loop_marks ys"
  by (simp add: loop_marks_def)

lemma loop_marks_none: "\<forall>e \<in> set es. cls e \<in> S \<Longrightarrow> L_mark \<notin> S \<Longrightarrow> loop_marks es = []"
  by (auto simp: loop_marks_def filter_empty_conv)

lemma is_start_mark: "filter is_start (loop_marks es) = filter is_start es"
  unfolding loop_marks_def filter_filter
  by (rule filter_cong) (auto elim: is_start.elims)

lemma is_wait_mark: "filter is_wait (loop_marks es) = filter is_wait es"
  unfolding loop_marks_def filter_filter
  by (rule filter_cong) (auto elim: is_wait.elims)

lemma marks_counts:
  "length (filter is_start (marks d tc n)) = n \<and> length (filter is_wait (marks d tc n)) = n - 1"
  by (induction d tc n rule: marks.induct) auto

lemma cycle_marks:
  assumes "cycle p tc w = (r, w1)"
  shows "\<exists>es. trace w1 = trace w @ es
     \<and> (case r of
           Ret x \<Rightarrow> loop_marks es = [CycleStart tc, CycleEnd tc]
         | _ \<Rightarrow> loop_marks es = [] \<or> loop_marks es = [CycleStart tc])"
proof -
  let ?wg = "w\<lparr>targets_views := stl (targets_views w)\<rparr>"
  let ?ws = "?wg\<lparr>clock := stl (clock ?wg), trace := trace w @ [CycleStart tc]\<rparr>"
  show ?thesis
  proof (cases "get_targets_of (shd (targets_views w))")
    case (Ret targets)
    obtain r2 wt where t: "cycle_tests p targets tc ?ws = (r2, wt)" by force
    from steadyD [OF steady_cycle_tests t] obtain es where
      es: "trace wt = trace w @ CycleStart tc # es" "\<forall>e \<in> set es. cls e \<in> test_layers"
      by auto
    have m: "loop_marks es = []"
      by (rule loop_marks_none [OF es(2)]) (simp add: test_layers_def)
    have c: "cycle p tc w = io_bind (cycle_tests p targets tc)
       (\<lambda>(test_results, summary).
         io_bind (datalogger (p_datalog p) test_results) (\<lambda>datalogger_result.
         io_bind date_and_tod (\<lambda>_.
         io_bind (emit (CycleEnd tc)) (\<lambda>_. io_return datalogger_result)))) ?ws"
      using Ret
      by (simp add: cycle_def io_bind_def get_targets_def date_and_tod_def emit_def log_def)
    show ?thesis
    proof (cases r2)
      case r2: (Ret x)
      obtain rows summary where x: "x = (rows, summary)" by (cases x)
      obtain rd wd where d: "datalogger (p_datalog p) rows wt = (rd, wd)" by force
      from datalogger_events [OF d] obtain esd where
        esd: "trace wd = trace wt @ Call_datalogger rows # esd"
          "\<forall>e \<in> set esd. cls e \<in> datalog_layers"
        by blast
      have md: "loop_marks esd = []"
        by (rule loop_marks_none [OF esd(2)]) (simp add: datalog_layers_def)
      have pre: "loop_marks (CycleStart tc # es @ Call_datalogger rows # esd) = [CycleStart tc]"
        using m md by (simp add: loop_marks_def)
      show ?thesis
      proof (cases rd)
        case rd: (Ret y)
        have "r = Ret y" "trace w1 = trace wd @ [CycleEnd tc]"
          using assms t r2 x d rd unfolding c
          by (auto simp: io_bind_def date_and_tod_def emit_def log_def io_return_def)
        then have "trace w1 = trace w @ (CycleStart tc # es @ Call_datalogger rows # esd)
            @ [CycleEnd tc]"
          "r = Ret y"
          using esd(1) es(1) by simp_all
        moreover have "loop_marks ((CycleStart tc # es @ Call_datalogger rows # esd)
            @ [CycleEnd tc]) = [CycleStart tc, CycleEnd tc]"
          unfolding loop_marks_append pre by (simp add: loop_marks_def)
        ultimately show ?thesis
          by (intro exI [of _ "(CycleStart tc # es @ Call_datalogger rows # esd) @ [CycleEnd tc]"])
            simp
      next
        case (Raise e)
        have "r = Raise e" "w1 = wd"
          using assms t r2 x d Raise unfolding c by (auto simp: io_bind_def)
        then have "trace w1 = trace w @ (CycleStart tc # es @ Call_datalogger rows # esd)"
          using esd(1) es(1) by simp
        with pre \<open>r = Raise e\<close> show ?thesis
          by (intro exI [of _ "CycleStart tc # es @ Call_datalogger rows # esd"]) simp
      next
        case (SysExit n)
        have "r = SysExit n" "w1 = wd"
          using assms t r2 x d SysExit unfolding c by (auto simp: io_bind_def)
        then have "trace w1 = trace w @ (CycleStart tc # es @ Call_datalogger rows # esd)"
          using esd(1) es(1) by simp
        with pre \<open>r = SysExit n\<close> show ?thesis
          by (intro exI [of _ "CycleStart tc # es @ Call_datalogger rows # esd"]) simp
      qed
    next
      case (Raise e)
      have "r = Raise e" "w1 = wt"
        using assms t Raise unfolding c by (simp_all add: io_bind_def)
      moreover have "loop_marks (CycleStart tc # es) = [CycleStart tc]"
        using m by (simp add: loop_marks_def)
      ultimately show ?thesis using es(1)
        by (intro exI [of _ "CycleStart tc # es"]) simp
    next
      case (SysExit n)
      have "r = SysExit n" "w1 = wt"
        using assms t SysExit unfolding c by (simp_all add: io_bind_def)
      moreover have "loop_marks (CycleStart tc # es) = [CycleStart tc]"
        using m by (simp add: loop_marks_def)
      ultimately show ?thesis using es(1)
        by (intro exI [of _ "CycleStart tc # es"]) simp
    qed
  next
    case (Raise e)
    then have "r = Raise e" "trace w1 = trace w @ []"
      using assms by (auto simp: cycle_def io_bind_def get_targets_def)
    then show ?thesis
      by (intro exI [of _ "[]"]) (simp add: loop_marks_def)
  next
    case (SysExit n)
    then have "r = SysExit n" "trace w1 = trace w @ []"
      using assms by (auto simp: cycle_def io_bind_def get_targets_def)
    then show ?thesis
      by (intro exI [of _ "[]"]) (simp add: loop_marks_def)
  qed
qed

lemma wait_next_cases:
  assumes "wait_next p w = (r, w1)"
  shows "(r = Ret () \<and> trace w1 = trace w @ [Sleep (CycleDelay (p_delay p))])
    \<or> ((\<exists>e. r = Raise e) \<and> trace w1 = trace w)"
  using assms
  by (auto simp: wait_next_def io_bind_def date_and_tod_def sleep_def log_def split: if_splits)


lemma main_loop_done: "main_loop p 0 tc w = Some (Ret tc, w)"
  by (subst main_loop.simps) simp

lemma main_loop_step:
  "c \<noteq> 0 \<Longrightarrow> main_loop p c tc w =
     (case cycle p tc w of
        (Ret u, w1) \<Rightarrow>
          (if (if 0 < c then c - 1 else c) = 0
           then main_loop p (if 0 < c then c - 1 else c) tc w1
           else (case wait_next p w1 of
                   (Ret v, w2) \<Rightarrow> main_loop p (if 0 < c then c - 1 else c) (tc + 1) w2
                 | (Raise e, w2) \<Rightarrow> Some (Raise e, w2)
                 | (SysExit n, w2) \<Rightarrow> Some (SysExit n, w2)))
      | (Raise e, w1) \<Rightarrow> Some (Raise e, w1)
      | (SysExit n, w1) \<Rightarrow> Some (SysExit n, w1))"
  by (subst main_loop.simps) simp

lemma main_loop_counts:
  "\<exists>r w1 es. main_loop p (int (Suc n)) tc w = Some (r, w1) \<and> trace w1 = trace w @ es
     \<and> prefix (loop_marks es) (marks (p_delay p) tc (Suc n))
     \<and> (\<forall>x. r = Ret x \<longrightarrow> loop_marks es = marks (p_delay p) tc (Suc n))"
proof (induction n arbitrary: tc w)
  case 0
  obtain rc wc where c: "cycle p tc w = (rc, wc)" by force
  from cycle_marks [OF c] obtain es where
    es: "trace wc = trace w @ es"
      "case rc of Ret x \<Rightarrow> loop_marks es = [CycleStart tc, CycleEnd tc]
         | _ \<Rightarrow> loop_marks es = [] \<or> loop_marks es = [CycleStart tc]"
    by blast
  show ?case
  proof (cases rc)
    case (Ret u)
    have "main_loop p (int (Suc 0)) tc w = Some (Ret tc, wc)"
      by (simp add: main_loop_step c Ret main_loop_done)
    with es Ret show ?thesis by auto
  next
    case (Raise e)
    have "main_loop p (int (Suc 0)) tc w = Some (Raise e, wc)"
      by (simp add: main_loop_step c Raise)
    with es Raise show ?thesis by auto
  next
    case (SysExit k)
    have "main_loop p (int (Suc 0)) tc w = Some (SysExit k, wc)"
      by (simp add: main_loop_step c SysExit)
    with es SysExit show ?thesis by auto
  qed
next
  case (Suc n)
  obtain rc wc where c: "cycle p tc w = (rc, wc)" by force
  from cycle_marks [OF c] obtain es where
    es: "trace wc = trace w @ es"
      "case rc of Ret x \<Rightarrow> loop_marks es = [CycleStart tc, CycleEnd tc]
         | _ \<Rightarrow> loop_marks es = [] \<or> loop_marks es = [CycleStart tc]"
    by blast
  have nz: "int (Suc (Suc n)) \<noteq> 0" "(if 0 < int (Suc (Suc n)) then int (Suc (Suc n)) - 1
      else int (Suc (Suc n))) = int (Suc n)"
    by simp_all
  show ?case
  proof (cases rc)
    case (Ret u)
    with es have m: "loop_marks es = [CycleStart tc, CycleEnd tc]" by simp
    obtain rw ww where wn: "wait_next p wc = (rw, ww)" by force
    from wait_next_cases [OF wn] show ?thesis
    proof
      assume a: "rw = Ret () \<and> trace ww = trace wc @ [Sleep (CycleDelay (p_delay p))]"
      from Suc.IH [of "tc + 1" ww] obtain r w1 es2 where
        ih: "main_loop p (int (Suc n)) (tc + 1) ww = Some (r, w1)" "trace w1 = trace ww @ es2"
          "prefix (loop_marks es2) (marks (p_delay p) (tc + 1) (Suc n))"
          "\<forall>x. r = Ret x \<longrightarrow> loop_marks es2 = marks (p_delay p) (tc + 1) (Suc n)"
        by blast
      have run: "main_loop p (int (Suc (Suc n))) tc w = Some (r, w1)"
        unfolding main_loop_step [OF nz(1)] nz(2) using c Ret wn a ih(1) by simp
      have tr: "trace w1 = trace w @ (es @ [Sleep (CycleDelay (p_delay p))] @ es2)"
        using es(1) a ih(2) by simp
      have lm: "loop_marks (es @ [Sleep (CycleDelay (p_delay p))] @ es2)
          = [CycleStart tc, CycleEnd tc, Sleep (CycleDelay (p_delay p))] @ loop_marks es2"
        unfolding loop_marks_append m by (simp add: loop_marks_def)
      have "prefix (loop_marks (es @ [Sleep (CycleDelay (p_delay p))] @ es2))
          (marks (p_delay p) tc (Suc (Suc n)))"
        "\<forall>x. r = Ret x \<longrightarrow> loop_marks (es @ [Sleep (CycleDelay (p_delay p))] @ es2)
           = marks (p_delay p) tc (Suc (Suc n))"
        unfolding lm using ih(3,4) by simp_all
      with run tr show ?thesis by blast
    next
      assume "(\<exists>e. rw = Raise e) \<and> trace ww = trace wc"
      then obtain e where a: "rw = Raise e" "trace ww = trace wc" by blast
      have run: "main_loop p (int (Suc (Suc n))) tc w = Some (Raise e, ww)"
        unfolding main_loop_step [OF nz(1)] nz(2) using c Ret wn a by simp
      have "trace ww = trace w @ es" using a es(1) by simp
      moreover have "prefix (loop_marks es) (marks (p_delay p) tc (Suc (Suc n)))"
        unfolding m by simp
      ultimately show ?thesis using run by blast
    qed
  next
    case (Raise e)
    have run: "main_loop p (int (Suc (Suc n))) tc w = Some (Raise e, wc)"
      unfolding main_loop_step [OF nz(1)] using c Raise by simp
    have "prefix (loop_marks es) (marks (p_delay p) tc (Suc (Suc n)))"
      using es(2) Raise by auto
    with run es(1) show ?thesis by blast
  next
    case (SysExit k)
    have run: "main_loop p (int (Suc (Suc n))) tc w = Some (SysExit k, wc)"
      unfolding main_loop_step [OF nz(1)] using c SysExit by simp
    have "prefix (loop_marks es) (marks (p_delay p) tc (Suc (Suc n)))"
      using es(2) SysExit by auto
    with run es(1) show ?thesis by blast
  qed
qed

text \<open>
  C8, as amended. For every cycle count \<open>c > 0\<close>, from every state of the world, the loop
  of \<open>main\<close> ends. What it has done by then is always a beginning of the history of \<open>c\<close>
  test cycles separated by the wait between cycles, so it never starts more than \<open>c\<close>
  cycles and never waits after the last; when nothing ends the program inside a cycle or
  in the wait, so that the loop ends by its count reaching zero, it has run exactly \<open>c\<close>
  test cycles, numbered consecutively, and waited exactly \<open>c - 1\<close> times.
\<close>

theorem main_loop_runs_c_cycles:
  assumes "0 < c"
  shows "\<exists>r w1. main_loop p c tc w = Some (r, w1)
     \<and> prefix (loop_marks (new_events w w1)) (marks (p_delay p) tc (nat c))
     \<and> (\<forall>x. r = Ret x \<longrightarrow>
           loop_marks (new_events w w1) = marks (p_delay p) tc (nat c)
           \<and> length (filter is_start (new_events w w1)) = nat c
           \<and> length (filter is_wait (new_events w w1)) = nat c - 1)"
proof -
  obtain n where n: "c = int (Suc n)" "nat c = Suc n"
    using assms by (metis Suc_pred' zero_less_nat_eq int_nat_eq less_le)
  from main_loop_counts [of p n tc w] obtain r w1 es where
    run: "main_loop p (int (Suc n)) tc w = Some (r, w1)" "trace w1 = trace w @ es"
      "prefix (loop_marks es) (marks (p_delay p) tc (Suc n))"
      "\<forall>x. r = Ret x \<longrightarrow> loop_marks es = marks (p_delay p) tc (Suc n)"
    by blast
  have ne: "new_events w w1 = es" using run(2) by (simp add: new_events_def)
  have cnt: "length (filter is_start es) = Suc n \<and> length (filter is_wait es) = Suc n - 1"
    if "loop_marks es = marks (p_delay p) tc (Suc n)"
    using marks_counts [of "p_delay p" tc "Suc n"] is_start_mark [of es] is_wait_mark [of es] that
    by simp
  have "main_loop p c tc w = Some (r, w1)
     \<and> prefix (loop_marks (new_events w w1)) (marks (p_delay p) tc (nat c))
     \<and> (\<forall>x. r = Ret x \<longrightarrow>
           loop_marks (new_events w w1) = marks (p_delay p) tc (nat c)
           \<and> length (filter is_start (new_events w w1)) = nat c
           \<and> length (filter is_wait (new_events w w1)) = nat c - 1)"
    unfolding ne n(2) using run(1,3,4) cnt n(1) by simp
  then show ?thesis by blast
qed


theorem main_loop_runs_c_cycles_witness:
  "\<exists>w1. main_loop sample_params 2 1 gateway_down = Some (Ret 2, w1)
     \<and> loop_marks (new_events gateway_down w1)
        = [CycleStart 1, CycleEnd 1, Sleep (CycleDelay 0), CycleStart 2, CycleEnd 2]
     \<and> length (filter is_start (new_events gateway_down w1)) = 2
     \<and> length (filter is_wait (new_events gateway_down w1)) = 1"
proof -
  have run: "\<exists>w1. main_loop sample_params 2 1 gateway_down = Some (Ret 2, w1)"
    by (simp add: main_loop_step main_loop_done wait_next_def cycle_defs open_defs vpn_close_def
        close_disconnect_def close_exit_def close_terminate_def prims gateway_down_def
        calm_world_def sample_params_def eval_nat_numeral)
  from main_loop_runs_c_cycles [of 2 sample_params 1 gateway_down] run show ?thesis
    by (auto simp: eval_nat_numeral sample_params_def)
qed

text \<open>
  C8 as stated fails: with two test cycles asked for, a targets file that cannot be opened
  when the second cycle starts ends the program with \<^verbatim>\<open>exit(1)\<close> after one test cycle and
  one wait.
\<close>

theorem main_loop_stops_early:
  "map_option fst (main_loop sample_params 2 1 targets_lost) = Some (SysExit 1)
   \<and> loop_marks (new_events targets_lost (snd (the (main_loop sample_params 2 1 targets_lost))))
       = [CycleStart 1, CycleEnd 1, Sleep (CycleDelay 0)]
   \<and> length (filter is_start
         (new_events targets_lost (snd (the (main_loop sample_params 2 1 targets_lost))))) = 1"
  by (simp add: main_loop_step main_loop_done wait_next_def cycle_defs prims targets_lost_def
      gateway_down_def calm_world_def sample_params_def new_events_def loop_marks_def
      eval_nat_numeral)

subsection \<open>Exit status\<close>





















































end
